theory Spec2Isabelle
  imports Main
begin

section \<open>JavaScript values, strings and exceptions\<close>

text \<open>
  The repository is a NestJS/TypeORM boilerplate. Its logic lives in the class
  \<^verbatim>\<open>AbstractRepository\<close> (\<^verbatim>\<open>src/common/repositories/abstract.repository.ts\<close>).
  That file holds two revisions of the class. The first (lines 1 to 96) has no error
  translation at all: it ignores a filters payload that does not parse, \<^verbatim>\<open>findOne\<close>
  returns \<^verbatim>\<open>null\<close>, \<^verbatim>\<open>delete\<close> never fails. The second (lines 97 to 247) throws the HTTP
  exceptions of NestJS; it is the one the README documents and the one the exception
  filter wired in \<^verbatim>\<open>main.ts\<close> belongs to. The development embeds the second revision.
  The query construction inside \<^verbatim>\<open>findAll\<close> (search, sort, pagination) is the same text
  in both.

  Strings are byte strings in UTF-8 (\<^typ>\<open>string\<close>); the numbers the code computes with
  (\<^verbatim>\<open>page\<close>, \<^verbatim>\<open>limit\<close>, row ids) are integers, and \<^verbatim>\<open>NaN\<close> is kept as a value of
  its own because \<^verbatim>\<open>isNaN\<close> is the one test the code makes on an id.
\<close>

datatype jsvalue =
    JUndefined
  | JNull
  | JBool bool
  | JNumber int
  | JString string
  | JArray "jsvalue list"
  | JObject "(string \<times> jsvalue) list"

datatype js_number = NaN | Num int

definition isNaN :: "js_number \<Rightarrow> bool" where
  "isNaN n = (n = NaN)"

text \<open>The quote character of the MySQL messages and of the regular expression.\<close>

definition quote :: char where
  "quote = CHR 0x27"

text \<open>Decimal rendering of a number inside a template literal (\<^verbatim>\<open>${idx}\<close>, \<^verbatim>\<open>${id}\<close>).\<close>

definition digit_char :: "nat \<Rightarrow> char" where
  "digit_char d = char_of (48 + d)"

fun string_of_nat :: "nat \<Rightarrow> string" where
  "string_of_nat n =
     (if n < 10 then [digit_char n] else string_of_nat (n div 10) @ [digit_char (n mod 10)])"

declare string_of_nat.simps [simp del]

definition string_of_int :: "int \<Rightarrow> string" where
  "string_of_int i = (if i < 0 then CHR ''-'' # string_of_nat (nat (- i)) else string_of_nat (nat i))"

fun string_of_number :: "js_number \<Rightarrow> string" where
  "string_of_number NaN = ''NaN''"
| "string_of_number (Num i) = string_of_int i"

text \<open>
  \<^verbatim>\<open>String.prototype.toUpperCase\<close> on the ASCII letters, which is where the validated
  values of \<^verbatim>\<open>order\<close> (\<^verbatim>\<open>ASC\<close>, \<^verbatim>\<open>DESC\<close>, \<^verbatim>\<open>asc\<close>, \<^verbatim>\<open>desc\<close>) live. The case mappings
  of characters beyond ASCII are outside the model.
\<close>

definition toUpperCase_char :: "char \<Rightarrow> char" where
  "toUpperCase_char c =
     (let n = (of_char c :: nat) in if 97 \<le> n \<and> n \<le> 122 then char_of (n - 32) else c)"

definition toUpperCase :: "string \<Rightarrow> string" where
  "toUpperCase s = map toUpperCase_char s"

text \<open>
  Truthiness of an optional string (\<^verbatim>\<open>if (filters)\<close>, \<^verbatim>\<open>if (search)\<close>,
  \<^verbatim>\<open>sortBy && ...\<close>, \<^verbatim>\<open>order && ...\<close>): \<^verbatim>\<open>undefined\<close> and the empty string are falsy.
\<close>

fun truthy :: "string option \<Rightarrow> bool" where
  "truthy None = False"
| "truthy (Some s) = (s \<noteq> [])"

text \<open>
  What the code throws and catches. The four HTTP exceptions of \<^verbatim>\<open>@nestjs/common\<close> are
  the error taxonomy of the specification: \<^verbatim>\<open>BadRequestException\<close> is InvalidArgument
  (400), \<^verbatim>\<open>NotFoundException\<close> is NotFound (404), \<^verbatim>\<open>ConflictException\<close> is Conflict
  (409) and \<^verbatim>\<open>InternalServerErrorException\<close> is Internal (500). \<open>StorageError\<close> is an
  error raised by the storage layer, with the driver's \<^verbatim>\<open>code\<close> (absent on errors that
  do not come from the driver) and its \<^verbatim>\<open>message\<close>.
\<close>

datatype exn =
    BadRequestException string
  | NotFoundException string
  | ConflictException string
  | InternalServerErrorException string
  | StorageError "string option" string

fun error_code :: "exn \<Rightarrow> string option" where
  "error_code (StorageError c m) = c"
| "error_code _ = None"

fun error_message :: "exn \<Rightarrow> string" where
  "error_message (BadRequestException m) = m"
| "error_message (NotFoundException m) = m"
| "error_message (ConflictException m) = m"
| "error_message (InternalServerErrorException m) = m"
| "error_message (StorageError c m) = m"

text \<open>
  \<^verbatim>\<open>Object.keys(parsed)\<close> paired with \<^verbatim>\<open>parsed[key]\<close>: the own enumerable properties of
  a value in enumeration order. \<^verbatim>\<open>Object.keys(null)\<close> throws a TypeError (\<open>None\<close>);
  numbers and booleans have no own properties; a string and an array have their
  indices. An object is represented by its property list in enumeration order.
\<close>

fun Object_entries :: "jsvalue \<Rightarrow> (string \<times> jsvalue) list option" where
  "Object_entries JUndefined = None"
| "Object_entries JNull = None"
| "Object_entries (JBool b) = Some []"
| "Object_entries (JNumber n) = Some []"
| "Object_entries (JString s) =
     Some (map (\<lambda>i. (string_of_nat i, JString [s ! i])) [0..<length s])"
| "Object_entries (JArray xs) =
     Some (map (\<lambda>i. (string_of_nat i, xs ! i)) [0..<length xs])"
| "Object_entries (JObject kvs) = Some kvs"

section \<open>The query builder\<close>

text \<open>
  The part of TypeORM's \<^verbatim>\<open>SelectQueryBuilder\<close> that \<^verbatim>\<open>findAll\<close> drives: a list of
  where clauses, each with the connective it was added with, the bound parameters, one
  order-by column, and the offset and row limit. Conditions are the strings the code
  builds. The callback of \<^verbatim>\<open>new Brackets(...)\<close> gets a builder of its own for the
  parenthesised group, which shares the parameters of its parent.

  Binding a parameter goes through \<^verbatim>\<open>setParameter\<close>, which throws unless the name
  matches \<^verbatim>\<open>/^([A-Za-z0-9_.]+)$/\<close>. \<^verbatim>\<open>andWhere\<close> records the clause and then binds
  its parameters, so it throws for such a name. The builder of the group binds only the
  names \<^verbatim>\<open>search_<idx>\<close>, which always pass (lemma \<open>search_parameter_key_ok\<close> below);
  its two operations are therefore written without the check.
\<close>

datatype where_op = W_simple | W_and | W_or

datatype where_clause =
    Where where_op string
  | Brackets where_op "(where_op \<times> string) list"

datatype direction = ASC | DESC

record query_builder =
  main_alias :: string
  wheres :: "where_clause list"
  parameters :: "(string \<times> jsvalue) list"
  orderBys :: "(string \<times> direction) list"
  skip_rows :: "int option"
  take_rows :: "int option"

definition createQueryBuilder :: "string \<Rightarrow> query_builder" where
  "createQueryBuilder a =
     \<lparr>main_alias = a, wheres = [], parameters = [], orderBys = [], skip_rows = None, take_rows = None\<rparr>"

definition parameter_key_char :: "char \<Rightarrow> bool" where
  "parameter_key_char c =
     (let n = (of_char c :: nat)
      in (48 \<le> n \<and> n \<le> 57) \<or> (65 \<le> n \<and> n \<le> 90) \<or> (97 \<le> n \<and> n \<le> 122)
         \<or> c = CHR ''_'' \<or> c = CHR ''.'')"

definition parameter_key_ok :: "string \<Rightarrow> bool" where
  "parameter_key_ok key = (key \<noteq> [] \<and> list_all parameter_key_char key)"

definition setParameters :: "query_builder \<Rightarrow> (string \<times> jsvalue) list \<Rightarrow> exn + query_builder" where
  "setParameters qb ps =
     (if list_all (\<lambda>kv. parameter_key_ok (fst kv)) ps
      then Inr (qb\<lparr>parameters := parameters qb @ ps\<rparr>)
      else Inl (StorageError None
             ''QueryBuilder parameter keys may only contain numbers, letters, underscores, or periods.''))"

definition andWhere :: "query_builder \<Rightarrow> string \<Rightarrow> (string \<times> jsvalue) list \<Rightarrow> exn + query_builder" where
  "andWhere qb cond ps = setParameters (qb\<lparr>wheres := wheres qb @ [Where W_and cond]\<rparr>) ps"

record where_builder =
  sub_wheres :: "(where_op \<times> string) list"
  sub_parameters :: "(string \<times> jsvalue) list"

definition sqb_where :: "where_builder \<Rightarrow> string \<Rightarrow> (string \<times> jsvalue) list \<Rightarrow> where_builder" where
  "sqb_where sqb cond ps =
     sqb\<lparr>sub_wheres := [(W_simple, cond)], sub_parameters := sub_parameters sqb @ ps\<rparr>"

definition sqb_orWhere :: "where_builder \<Rightarrow> string \<Rightarrow> (string \<times> jsvalue) list \<Rightarrow> where_builder" where
  "sqb_orWhere sqb cond ps =
     sqb\<lparr>sub_wheres := sub_wheres sqb @ [(W_or, cond)], sub_parameters := sub_parameters sqb @ ps\<rparr>"

definition andWhere_Brackets :: "query_builder \<Rightarrow> (where_builder \<Rightarrow> where_builder) \<Rightarrow> query_builder" where
  "andWhere_Brackets qb callback =
     (let sqb = callback \<lparr>sub_wheres = [], sub_parameters = parameters qb\<rparr>
      in qb\<lparr>wheres := wheres qb @ [Brackets W_and (sub_wheres sqb)],
             parameters := sub_parameters sqb\<rparr>)"

definition orderBy :: "query_builder \<Rightarrow> string \<Rightarrow> direction \<Rightarrow> query_builder" where
  "orderBy qb col dir = qb\<lparr>orderBys := [(col, dir)]\<rparr>"

definition skip :: "query_builder \<Rightarrow> int \<Rightarrow> query_builder" where
  "skip qb n = qb\<lparr>skip_rows := Some n\<rparr>"

definition take_qb :: "query_builder \<Rightarrow> int \<Rightarrow> query_builder" where
  "take_qb qb n = qb\<lparr>take_rows := Some n\<rparr>"

section \<open>The pagination request and the result page\<close>

record AbstractPaginationDto =
  page :: int
  limit :: int
  sortBy :: "string option"
  order :: "string option"
  search :: "string option"
  filters :: "string option"

type_synonym entity = "(string \<times> jsvalue) list"

record PaginatedResult =
  data :: "entity list"
  total :: int
  page_out :: int
  limit_out :: int

section \<open>The storage boundary\<close>

text \<open>
  \<^verbatim>\<open>AbstractRepository\<close> is constructed over a TypeORM \<^verbatim>\<open>Repository<T>\<close>. The class uses
  five of its operations; each is a function of the storage state \<open>'s\<close>. An operation
  that throws returns \<open>Inl\<close>. \<^verbatim>\<open>DeleteResult.affected\<close> is optional in TypeORM, hence
  the \<open>nat option\<close>. \<^verbatim>\<open>repository.create(entity)\<close> only builds an instance and is the
  identity here.
\<close>

record 's Repository =
  getManyAndCount :: "query_builder \<Rightarrow> 's \<Rightarrow> exn + (entity list \<times> int)"
  repo_findOne :: "js_number \<Rightarrow> 's \<Rightarrow> exn + entity option"
  repo_save :: "entity \<Rightarrow> 's \<Rightarrow> (exn + entity) \<times> 's"
  repo_update :: "js_number \<Rightarrow> entity \<Rightarrow> 's \<Rightarrow> (exn + unit) \<times> 's"
  repo_delete :: "js_number \<Rightarrow> 's \<Rightarrow> (exn + nat option) \<times> 's"

text \<open>
  An instance of the class: the injected repository and the two overridable column
  lists (\<^verbatim>\<open>[]\<close> and \<^verbatim>\<open>['id']\<close> unless a subclass overrides them).
\<close>

record 's AbstractRepository =
  repository :: "'s Repository"
  getSearchableColumns :: "string list"
  getSortableColumns :: "string list"

section \<open>findAll\<close>

text \<open>
  The filter block. \<^verbatim>\<open>JSON.parse\<close> is a parameter: \<open>None\<close> stands for the SyntaxError
  it throws. Anything thrown inside the inner \<^verbatim>\<open>try\<close> becomes
  \<^verbatim>\<open>BadRequestException('Invalid filters JSON')\<close>: a payload that does not parse, a
  parsed value without properties to enumerate, and a key that \<^verbatim>\<open>andWhere\<close> refuses
  as a parameter name. \<open>add_filters\<close> is the \<^verbatim>\<open>forEach\<close> over the keys, which stops at
  the first throw.
\<close>

definition add_filter :: "query_builder \<Rightarrow> string \<times> jsvalue \<Rightarrow> exn + query_builder" where
  "add_filter qb kv =
     (let key = fst kv; param = ''filter_'' @ key
      in andWhere qb (''e.'' @ key @ '' = :'' @ param) [(param, snd kv)])"

fun add_filters :: "query_builder \<Rightarrow> (string \<times> jsvalue) list \<Rightarrow> exn + query_builder" where
  "add_filters qb [] = Inr qb"
| "add_filters qb (kv # rest) =
     (case add_filter qb kv of
        Inl err \<Rightarrow> Inl err
      | Inr qb' \<Rightarrow> add_filters qb' rest)"

definition apply_filters ::
  "(string \<Rightarrow> jsvalue option) \<Rightarrow> string option \<Rightarrow> query_builder \<Rightarrow> exn + query_builder" where
  "apply_filters JSON_parse fs qb =
     (case fs of
        None \<Rightarrow> Inr qb
      | Some f \<Rightarrow>
          if f = [] then Inr qb
          else (case JSON_parse f of
                  None \<Rightarrow> Inl (BadRequestException ''Invalid filters JSON'')
                | Some parsed \<Rightarrow>
                    (case Object_entries parsed of
                       None \<Rightarrow> Inl (BadRequestException ''Invalid filters JSON'')
                     | Some entries \<Rightarrow>
                         (case add_filters qb entries of
                            Inl err \<Rightarrow> Inl (BadRequestException ''Invalid filters JSON'')
                          | Inr qb' \<Rightarrow> Inr qb'))))"

text \<open>The search block: one parenthesised group, the first column with \<^verbatim>\<open>where\<close>, the others with \<^verbatim>\<open>orWhere\<close>.\<close>

definition add_search :: "string \<Rightarrow> where_builder \<Rightarrow> nat \<times> string \<Rightarrow> where_builder" where
  "add_search s sqb ic =
     (let idx = fst ic; col = snd ic; param = ''search_'' @ string_of_nat idx
      in if idx = 0
         then sqb_where sqb (''e.'' @ col @ '' LIKE :'' @ param) [(param, JString (''%'' @ s @ ''%''))]
         else sqb_orWhere sqb (''e.'' @ col @ '' LIKE :'' @ param) [(param, JString (''%'' @ s @ ''%''))])"

definition apply_search :: "string list \<Rightarrow> string option \<Rightarrow> query_builder \<Rightarrow> query_builder" where
  "apply_search cols srch qb =
     (case srch of
        None \<Rightarrow> qb
      | Some s \<Rightarrow>
          if s = [] then qb
          else if cols \<noteq> []
               then andWhere_Brackets qb (\<lambda>sqb. foldl (add_search s) sqb (enumerate 0 cols))
               else qb)"

text \<open>The sort block.\<close>

definition safeSort :: "string list \<Rightarrow> string option \<Rightarrow> string" where
  "safeSort sortable sb =
     (case sb of
        None \<Rightarrow> ''id''
      | Some c \<Rightarrow> if c \<noteq> [] \<and> c \<in> set sortable then c else ''id'')"

definition sort_direction :: "string option \<Rightarrow> direction" where
  "sort_direction ord =
     (case ord of
        None \<Rightarrow> ASC
      | Some d \<Rightarrow> if d \<noteq> [] \<and> toUpperCase d = ''DESC'' then DESC else ASC)"

definition apply_sort :: "string list \<Rightarrow> string option \<Rightarrow> string option \<Rightarrow> query_builder \<Rightarrow> query_builder" where
  "apply_sort sortable sb ord qb = orderBy qb (''e.'' @ safeSort sortable sb) (sort_direction ord)"

text \<open>The query as it stands when \<^verbatim>\<open>getManyAndCount\<close> is called.\<close>

definition findAll_query ::
  "(string \<Rightarrow> jsvalue option) \<Rightarrow> 's AbstractRepository \<Rightarrow> AbstractPaginationDto \<Rightarrow> exn + query_builder" where
  "findAll_query JSON_parse this pagination =
     (case apply_filters JSON_parse (filters pagination) (createQueryBuilder ''e'') of
        Inl err \<Rightarrow> Inl err
      | Inr qb1 \<Rightarrow>
          (let qb2 = apply_search (getSearchableColumns this) (search pagination) qb1;
               qb3 = apply_sort (getSortableColumns this) (sortBy pagination) (order pagination) qb2
           in Inr (take_qb (skip qb3 ((page pagination - 1) * limit pagination)) (limit pagination))))"

text \<open>The body of the outer \<^verbatim>\<open>try\<close>, and \<^verbatim>\<open>findAll\<close> with its \<^verbatim>\<open>catch\<close>.\<close>

definition findAll_try ::
  "(string \<Rightarrow> jsvalue option) \<Rightarrow> 's AbstractRepository \<Rightarrow> AbstractPaginationDto \<Rightarrow> 's
     \<Rightarrow> exn + PaginatedResult" where
  "findAll_try JSON_parse this pagination s =
     (case findAll_query JSON_parse this pagination of
        Inl err \<Rightarrow> Inl err
      | Inr qb \<Rightarrow>
          (case getManyAndCount (repository this) qb s of
             Inl err \<Rightarrow> Inl err
           | Inr dt \<Rightarrow>
               Inr \<lparr>data = fst dt, total = snd dt,
                    page_out = page pagination, limit_out = limit pagination\<rparr>))"

definition findAll ::
  "(string \<Rightarrow> jsvalue option) \<Rightarrow> 's AbstractRepository \<Rightarrow> AbstractPaginationDto \<Rightarrow> 's
     \<Rightarrow> exn + PaginatedResult" where
  "findAll JSON_parse this pagination s =
     (case findAll_try JSON_parse this pagination s of
        Inl err \<Rightarrow> Inl (InternalServerErrorException (error_message err))
      | Inr r \<Rightarrow> Inr r)"

section \<open>Point operations and error translation\<close>

text \<open>
  \<^verbatim>\<open>message.match(/for key '(.+)'/)\<close>: the leftmost position where \<^verbatim>\<open>for key '\<close> starts
  a match. There \<^verbatim>\<open>.+\<close> is greedy and does not cross a line terminator, so the group is
  what lies between that quote and the last quote of the same line, and it must not be
  empty. If there is no such quote, the search goes on at the next position. The line
  terminators of JavaScript are LF, CR, U+2028 and U+2029; the last two are three bytes
  each in UTF-8.
\<close>

fun starts_with :: "string \<Rightarrow> string \<Rightarrow> string option" where
  "starts_with [] s = Some s"
| "starts_with (p # ps) [] = None"
| "starts_with (p # ps) (c # cs) = (if p = c then starts_with ps cs else None)"

definition cr_or_lf :: "char \<Rightarrow> bool" where
  "cr_or_lf c = (c = CHR 0x0A \<or> c = CHR 0x0D)"

definition line_separator :: string where
  "line_separator = [CHR 0xE2, CHR 0x80, CHR 0xA8]"

definition paragraph_separator :: string where
  "paragraph_separator = [CHR 0xE2, CHR 0x80, CHR 0xA9]"

definition terminator_at :: "string \<Rightarrow> bool" where
  "terminator_at s =
     (case s of
        [] \<Rightarrow> False
      | c # cs \<Rightarrow>
          cr_or_lf c \<or> starts_with line_separator s \<noteq> None
            \<or> starts_with paragraph_separator s \<noteq> None)"

fun line_of :: "string \<Rightarrow> string" where
  "line_of [] = []"
| "line_of (c # cs) = (if terminator_at (c # cs) then [] else c # line_of cs)"

definition greedy_group :: "string \<Rightarrow> string option" where
  "greedy_group rest =
     (let line = line_of rest;
          back = dropWhile (\<lambda>c. c \<noteq> quote) (rev line)
      in case back of
           [] \<Rightarrow> None
         | q # front \<Rightarrow> if front = [] then None else Some (rev front))"

fun match_for_key :: "string \<Rightarrow> string option" where
  "match_for_key [] = None"
| "match_for_key (c # cs) =
     (case starts_with (''for key '' @ [quote]) (c # cs) of
        None \<Rightarrow> match_for_key cs
      | Some rest \<Rightarrow>
          (case greedy_group rest of
             None \<Rightarrow> match_for_key cs
           | Some g \<Rightarrow> Some g))"

definition extractDuplicateField :: "string \<Rightarrow> string" where
  "extractDuplicateField message =
     (case match_for_key message of Some g \<Rightarrow> g | None \<Rightarrow> ''unknown'')"

text \<open>The \<^verbatim>\<open>catch\<close> block that \<^verbatim>\<open>create\<close> and \<^verbatim>\<open>update\<close> share word for word.\<close>

definition catch_write :: "exn \<Rightarrow> exn" where
  "catch_write err =
     (if error_code err = Some ''ER_DUP_ENTRY''
      then ConflictException
             (''Duplicate value for unique field(s): '' @ extractDuplicateField (error_message err))
      else InternalServerErrorException (error_message err))"

definition findOne :: "'s AbstractRepository \<Rightarrow> js_number \<Rightarrow> 's \<Rightarrow> exn + entity" where
  "findOne this ident s =
     (if isNaN ident then Inl (BadRequestException ''Invalid id format'')
      else (case repo_findOne (repository this) ident s of
              Inl err \<Rightarrow> Inl err
            | Inr None \<Rightarrow>
                Inl (NotFoundException (''Entity with id '' @ string_of_number ident @ '' not found''))
            | Inr (Some e) \<Rightarrow> Inr e))"

definition create :: "'s AbstractRepository \<Rightarrow> entity \<Rightarrow> 's \<Rightarrow> (exn + entity) \<times> 's" where
  "create this e s =
     (case repo_save (repository this) e s of
        (Inl err, s') \<Rightarrow> (Inl (catch_write err), s')
      | (Inr saved, s') \<Rightarrow> (Inr saved, s'))"

definition update :: "'s AbstractRepository \<Rightarrow> js_number \<Rightarrow> entity \<Rightarrow> 's \<Rightarrow> (exn + entity) \<times> 's" where
  "update this ident e s =
     (if isNaN ident then (Inl (BadRequestException ''Invalid id format''), s)
      else (case repo_update (repository this) ident e s of
              (Inl err, s') \<Rightarrow> (Inl (catch_write err), s')
            | (Inr u, s') \<Rightarrow>
                (case findOne this ident s' of
                   Inl err \<Rightarrow> (Inl (catch_write err), s')
                 | Inr updated \<Rightarrow> (Inr updated, s'))))"


section \<open>A reference storage engine\<close>

text \<open>
  Claims about what a query returns, or about the state a write leaves behind, need the
  storage to be something. This section is a model of the collaborator, not of the
  repository's code: one MySQL table behind a TypeORM repository, kept in memory. It
  fixes these conventions: string comparison and \<^verbatim>\<open>LIKE\<close> ignore ASCII case (MySQL's
  default collations); \<^verbatim>\<open>LIKE\<close> has the wildcards \<^verbatim>\<open>%\<close> and \<^verbatim>\<open>_\<close> and the escape
  character backslash; a condition is understood when it has one of the two shapes
  \<^verbatim>\<open>findAll\<close> generates over a column of the table, and is refused with a storage
  error otherwise; offsets below 0 and limits below 1 are refused as well. Column defaults
  are not modelled. \<^verbatim>\<open>save\<close> updates the stored row whose id the entity carries, and
  inserts otherwise: under the id the entity carries, or under the next fresh id when it
  carries none (an \<^verbatim>\<open>id\<close> that is not a number counts as none).
\<close>

record table =
  table_name :: string
  table_columns :: "string list"
  unique_columns :: "string list"
  required_columns :: "string list"
  rows :: "entity list"
  auto_increment :: int

definition toLowerCase_char :: "char \<Rightarrow> char" where
  "toLowerCase_char c =
     (let n = (of_char c :: nat) in if 65 \<le> n \<and> n \<le> 90 then char_of (n + 32) else c)"

definition toLowerCase :: "string \<Rightarrow> string" where
  "toLowerCase s = map toLowerCase_char s"

definition same_letter :: "char \<Rightarrow> char \<Rightarrow> bool" where
  "same_letter a b = (toLowerCase_char a = toLowerCase_char b)"

definition backslash :: char where
  "backslash = CHR 0x5C"

fun like :: "string \<Rightarrow> string \<Rightarrow> bool" where
  "like [] t = (t = [])"
| "like (p # ps) [] = (p = CHR ''%'' \<and> like ps [])"
| "like (p # ps) (c # cs) =
     (if p = CHR ''%'' then like ps (c # cs) \<or> like (p # ps) cs
      else if p = CHR ''_'' then like ps cs
      else if p = backslash
           then (case ps of
                   [] \<Rightarrow> same_letter c p \<and> like [] cs
                 | e # es \<Rightarrow> same_letter c e \<and> like es cs)
           else same_letter c p \<and> like ps cs)"

fun sql_equal :: "jsvalue option \<Rightarrow> jsvalue \<Rightarrow> bool" where
  "sql_equal (Some (JString a)) (JString b) = (toLowerCase a = toLowerCase b)"
| "sql_equal (Some (JNumber a)) (JNumber b) = (a = b)"
| "sql_equal (Some (JBool a)) (JBool b) = (a = b)"
| "sql_equal _ _ = False"

fun sql_like :: "jsvalue option \<Rightarrow> jsvalue \<Rightarrow> bool" where
  "sql_like (Some (JString a)) (JString pat) = like pat a"
| "sql_like (Some (JNumber n)) (JString pat) = like pat (string_of_int n)"
| "sql_like _ _ = False"

definition bad_field :: "string \<Rightarrow> string \<Rightarrow> exn" where
  "bad_field c place =
     StorageError (Some ''ER_BAD_FIELD_ERROR'')
       (''Unknown column '' @ [quote] @ c @ [quote] @ '' in '' @ [quote] @ place @ [quote])"

definition parse_error :: "string \<Rightarrow> exn" where
  "parse_error cond =
     StorageError (Some ''ER_PARSE_ERROR'')
       (''You have an error in your SQL syntax near '' @ [quote] @ cond @ [quote])"

definition bound_parameter :: "(string \<times> jsvalue) list \<Rightarrow> string \<Rightarrow> jsvalue option" where
  "bound_parameter ps name = map_of (rev ps) name"

definition compile_condition ::
  "table \<Rightarrow> (string \<times> jsvalue) list \<Rightarrow> string \<Rightarrow> exn + (entity \<Rightarrow> bool)" where
  "compile_condition t ps cond =
     (case starts_with ''e.'' cond of
        None \<Rightarrow> Inl (parse_error cond)
      | Some rest \<Rightarrow>
          (let col = takeWhile (\<lambda>c. c \<noteq> CHR '' '') rest;
               tail = dropWhile (\<lambda>c. c \<noteq> CHR '' '') rest
           in if col \<notin> set (table_columns t) then Inl (bad_field (''e.'' @ col) ''where clause'')
              else (case starts_with '' = :'' tail of
                      Some name \<Rightarrow>
                        (case bound_parameter ps name of
                           None \<Rightarrow> Inl (parse_error cond)
                         | Some v \<Rightarrow> Inr (\<lambda>e. sql_equal (map_of e col) v))
                    | None \<Rightarrow>
                        (case starts_with '' LIKE :'' tail of
                           Some name \<Rightarrow>
                             (case bound_parameter ps name of
                                None \<Rightarrow> Inl (parse_error cond)
                              | Some v \<Rightarrow> Inr (\<lambda>e. sql_like (map_of e col) v))
                         | None \<Rightarrow> Inl (parse_error cond)))))"

text \<open>Connectives: \<^verbatim>\<open>AND\<close> binds tighter than \<^verbatim>\<open>OR\<close>; the connective of the first clause is not rendered.\<close>

fun connect :: "bool \<Rightarrow> (where_op \<times> bool) list \<Rightarrow> bool" where
  "connect acc [] = acc"
| "connect acc ((W_or, b) # rest) = (acc \<or> connect b rest)"
| "connect acc ((W_and, b) # rest) = connect (acc \<and> b) rest"
| "connect acc ((W_simple, b) # rest) = connect (acc \<and> b) rest"

fun combine :: "(where_op \<times> bool) list \<Rightarrow> bool" where
  "combine [] = True"
| "combine ((c, b) # rest) = connect b rest"

fun compile_group ::
  "table \<Rightarrow> (string \<times> jsvalue) list \<Rightarrow> (where_op \<times> string) list
     \<Rightarrow> exn + (where_op \<times> (entity \<Rightarrow> bool)) list" where
  "compile_group t ps [] = Inr []"
| "compile_group t ps ((c, cond) # rest) =
     (case compile_condition t ps cond of
        Inl err \<Rightarrow> Inl err
      | Inr f \<Rightarrow>
          (case compile_group t ps rest of
             Inl err \<Rightarrow> Inl err
           | Inr fs \<Rightarrow> Inr ((c, f) # fs)))"

definition group_holds :: "(where_op \<times> (entity \<Rightarrow> bool)) list \<Rightarrow> entity \<Rightarrow> bool" where
  "group_holds fs e = combine (map (\<lambda>cf. (fst cf, snd cf e)) fs)"

fun compile_wheres ::
  "table \<Rightarrow> (string \<times> jsvalue) list \<Rightarrow> where_clause list
     \<Rightarrow> exn + (where_op \<times> (entity \<Rightarrow> bool)) list" where
  "compile_wheres t ps [] = Inr []"
| "compile_wheres t ps (Where c cond # rest) =
     (case compile_condition t ps cond of
        Inl err \<Rightarrow> Inl err
      | Inr f \<Rightarrow>
          (case compile_wheres t ps rest of
             Inl err \<Rightarrow> Inl err
           | Inr fs \<Rightarrow> Inr ((c, f) # fs)))"
| "compile_wheres t ps (Brackets c conds # rest) =
     (case compile_group t ps conds of
        Inl err \<Rightarrow> Inl err
      | Inr g \<Rightarrow>
          (case compile_wheres t ps rest of
             Inl err \<Rightarrow> Inl err
           | Inr fs \<Rightarrow> Inr ((c, group_holds g) # fs)))"

text \<open>Ordering: absent and null values first, then booleans, numbers, strings without case.\<close>

fun lex_le :: "nat list \<Rightarrow> nat list \<Rightarrow> bool" where
  "lex_le [] ys = True"
| "lex_le (x # xs) [] = False"
| "lex_le (x # xs) (y # ys) = (x < y \<or> (x = y \<and> lex_le xs ys))"

fun sort_key :: "jsvalue option \<Rightarrow> nat \<times> int \<times> nat list" where
  "sort_key (Some (JBool b)) = (1, (if b then 1 else 0), [])"
| "sort_key (Some (JNumber n)) = (2, n, [])"
| "sort_key (Some (JString s)) = (3, 0, map of_char (toLowerCase s))"
| "sort_key _ = (0, 0, [])"

definition key_le :: "nat \<times> int \<times> nat list \<Rightarrow> nat \<times> int \<times> nat list \<Rightarrow> bool" where
  "key_le a b =
     (fst a < fst b \<or>
      (fst a = fst b \<and>
        (fst (snd a) < fst (snd b) \<or>
         (fst (snd a) = fst (snd b) \<and> lex_le (snd (snd a)) (snd (snd b))))))"

definition row_le :: "string \<Rightarrow> direction \<Rightarrow> entity \<Rightarrow> entity \<Rightarrow> bool" where
  "row_le col dir a b =
     (case dir of
        ASC \<Rightarrow> key_le (sort_key (map_of a col)) (sort_key (map_of b col))
      | DESC \<Rightarrow> key_le (sort_key (map_of b col)) (sort_key (map_of a col)))"

fun insert_row :: "(entity \<Rightarrow> entity \<Rightarrow> bool) \<Rightarrow> entity \<Rightarrow> entity list \<Rightarrow> entity list" where
  "insert_row le x [] = [x]"
| "insert_row le x (y # ys) = (if le x y then x # y # ys else y # insert_row le x ys)"

definition sort_rows :: "(entity \<Rightarrow> entity \<Rightarrow> bool) \<Rightarrow> entity list \<Rightarrow> entity list" where
  "sort_rows le xs = foldr (insert_row le) xs []"

definition order_rows :: "table \<Rightarrow> (string \<times> direction) list \<Rightarrow> entity list \<Rightarrow> exn + entity list" where
  "order_rows t obs xs =
     (case obs of
        [] \<Rightarrow> Inr xs
      | (c, dir) # others \<Rightarrow>
          (case starts_with ''e.'' c of
             None \<Rightarrow> Inl (bad_field c ''order clause'')
           | Some col \<Rightarrow>
               if col \<in> set (table_columns t) then Inr (sort_rows (row_le col dir) xs)
               else Inl (bad_field c ''order clause'')))"

definition limit_offset :: "int option \<Rightarrow> int option \<Rightarrow> entity list \<Rightarrow> exn + entity list" where
  "limit_offset sk tk xs =
     (let off = (case sk of None \<Rightarrow> 0 | Some n \<Rightarrow> n)
      in if off < 0 then Inl (parse_error ''OFFSET'')
         else (case tk of
                 None \<Rightarrow> Inr (drop (nat off) xs)
               | Some m \<Rightarrow>
                   if m < 1 then Inl (parse_error ''LIMIT'')
                   else Inr (take (nat m) (drop (nat off) xs))))"

definition matching_rows :: "table \<Rightarrow> query_builder \<Rightarrow> exn + entity list" where
  "matching_rows t qb =
     (case compile_wheres t (parameters qb) (wheres qb) of
        Inl err \<Rightarrow> Inl err
      | Inr fs \<Rightarrow> Inr (filter (group_holds fs) (rows t)))"

definition mem_getManyAndCount :: "query_builder \<Rightarrow> table \<Rightarrow> exn + (entity list \<times> int)" where
  "mem_getManyAndCount qb t =
     (case matching_rows t qb of
        Inl err \<Rightarrow> Inl err
      | Inr found \<Rightarrow>
          (case order_rows t (orderBys qb) found of
             Inl err \<Rightarrow> Inl err
           | Inr ordered \<Rightarrow>
               (case limit_offset (skip_rows qb) (take_rows qb) ordered of
                  Inl err \<Rightarrow> Inl err
                | Inr pg \<Rightarrow> Inr (pg, int (length found)))))"

text \<open>The write path and the point read.\<close>

definition has_id :: "int \<Rightarrow> entity \<Rightarrow> bool" where
  "has_id n e = (map_of e ''id'' = Some (JNumber n))"

definition stored_fields :: "table \<Rightarrow> entity \<Rightarrow> entity" where
  "stored_fields t e = filter (\<lambda>kv. fst kv \<noteq> ''id'' \<and> fst kv \<in> set (table_columns t)) e"

fun render_value :: "jsvalue \<Rightarrow> string" where
  "render_value (JString s) = s"
| "render_value (JNumber n) = string_of_int n"
| "render_value (JBool b) = (if b then ''1'' else ''0'')"
| "render_value _ = ''NULL''"

definition clashes :: "entity list \<Rightarrow> entity \<Rightarrow> string \<Rightarrow> bool" where
  "clashes others e col =
     (case map_of e col of
        None \<Rightarrow> False
      | Some v \<Rightarrow> list_ex (\<lambda>r. sql_equal (map_of r col) v) others)"

definition duplicate_entry :: "table \<Rightarrow> entity \<Rightarrow> string \<Rightarrow> exn" where
  "duplicate_entry t e col =
     StorageError (Some ''ER_DUP_ENTRY'')
       (''Duplicate entry '' @ [quote]
          @ (case map_of e col of Some v \<Rightarrow> render_value v | None \<Rightarrow> ''NULL'') @ [quote]
          @ '' for key '' @ [quote] @ table_name t @ ''.'' @ col @ [quote])"

definition no_default :: "string \<Rightarrow> exn" where
  "no_default col =
     StorageError (Some ''ER_NO_DEFAULT_FOR_FIELD'')
       (''Field '' @ [quote] @ col @ [quote] @ '' doesn'' @ [quote] @ ''t have a default value'')"

definition lacks :: "entity \<Rightarrow> string \<Rightarrow> bool" where
  "lacks e col = (case map_of e col of None \<Rightarrow> True | Some v \<Rightarrow> v = JNull \<or> v = JUndefined)"

definition merge_fields :: "entity \<Rightarrow> entity \<Rightarrow> entity" where
  "merge_fields r fs =
     map (\<lambda>kv. case map_of fs (fst kv) of Some v \<Rightarrow> (fst kv, v) | None \<Rightarrow> kv) r
       @ filter (\<lambda>kv. map_of r (fst kv) = None) fs"

definition supplied_id :: "entity \<Rightarrow> int option" where
  "supplied_id e = (case map_of e ''id'' of Some (JNumber n) \<Rightarrow> Some n | _ \<Rightarrow> None)"

definition mem_insert :: "int \<Rightarrow> entity \<Rightarrow> table \<Rightarrow> (exn + entity) \<times> table" where
  "mem_insert n fs t =
     (case List.find (lacks fs) (required_columns t) of
        Some col \<Rightarrow> (Inl (no_default col), t)
      | None \<Rightarrow>
          (case List.find (clashes (rows t) fs) (unique_columns t) of
             Some col \<Rightarrow> (Inl (duplicate_entry t fs col), t)
           | None \<Rightarrow>
               (let row = (''id'', JNumber n) # fs
                in (Inr row, t\<lparr>rows := rows t @ [row],
                                auto_increment := max (auto_increment t) (n + 1)\<rparr>))))"

definition mem_save :: "entity \<Rightarrow> table \<Rightarrow> (exn + entity) \<times> table" where
  "mem_save e t =
     (let fs = stored_fields t e
      in case supplied_id e of
           None \<Rightarrow> mem_insert (auto_increment t) fs t
         | Some n \<Rightarrow>
             if list_ex (has_id n) (rows t)
             then (case List.find (clashes (filter (\<lambda>r. \<not> has_id n r) (rows t)) fs)
                          (unique_columns t) of
                     Some col \<Rightarrow> (Inl (duplicate_entry t fs col), t)
                   | None \<Rightarrow>
                       (Inr ((''id'', JNumber n) # fs),
                        t\<lparr>rows := map (\<lambda>r. if has_id n r then merge_fields r fs else r)
                                       (rows t)\<rparr>))
             else mem_insert n fs t)"

definition mem_update :: "js_number \<Rightarrow> entity \<Rightarrow> table \<Rightarrow> (exn + unit) \<times> table" where
  "mem_update ident e t =
     (case ident of
        NaN \<Rightarrow> (Inr (), t)
      | Num n \<Rightarrow>
          (let fs = stored_fields t e
           in if fs = []
              then (Inl (StorageError None
                           ''Cannot perform update query because update values are not defined''), t)
              else if filter (has_id n) (rows t) = [] then (Inr (), t)
              else (case List.find (clashes (filter (\<lambda>r. \<not> has_id n r) (rows t)) fs)
                           (unique_columns t) of
                      Some col \<Rightarrow> (Inl (duplicate_entry t fs col), t)
                    | None \<Rightarrow>
                        (Inr (), t\<lparr>rows := map (\<lambda>r. if has_id n r then merge_fields r fs else r)
                                                (rows t)\<rparr>))))"

definition mem_delete :: "js_number \<Rightarrow> table \<Rightarrow> (exn + nat option) \<times> table" where
  "mem_delete ident t =
     (case ident of
        NaN \<Rightarrow> (Inr (Some 0), t)
      | Num n \<Rightarrow>
          (Inr (Some (length (filter (has_id n) (rows t)))),
           t\<lparr>rows := filter (\<lambda>r. \<not> has_id n r) (rows t)\<rparr>))"

definition mem_findOne :: "js_number \<Rightarrow> table \<Rightarrow> exn + entity option" where
  "mem_findOne ident t =
     (case ident of
        NaN \<Rightarrow> Inr None
      | Num n \<Rightarrow> Inr (List.find (has_id n) (rows t)))"

definition mem_repository :: "table Repository" where
  "mem_repository =
     \<lparr>getManyAndCount = mem_getManyAndCount, repo_findOne = mem_findOne, repo_save = mem_save,
      repo_update = mem_update, repo_delete = mem_delete\<rparr>"

section \<open>The user module\<close>

text \<open>
  \<^verbatim>\<open>UserRepository\<close> overrides the two column lists. The table is the \<^verbatim>\<open>User\<close> entity of
  the README: \<^verbatim>\<open>email\<close> is unique, \<^verbatim>\<open>name\<close> and \<^verbatim>\<open>email\<close> have no default.
\<close>

definition UserRepository :: "'s Repository \<Rightarrow> 's AbstractRepository" where
  "UserRepository r =
     \<lparr>repository = r, getSearchableColumns = [''name'', ''email''],
      getSortableColumns = [''id'', ''name'', ''email'', ''createdAt'']\<rparr>"

definition users :: "entity list \<Rightarrow> table" where
  "users rs =
     \<lparr>table_name = ''users'',
      table_columns = [''id'', ''name'', ''email'', ''isActive'', ''createdAt''],
      unique_columns = [''email''], required_columns = [''name'', ''email''],
      rows = rs, auto_increment = int (length rs) + 1\<rparr>"

definition user :: "int \<Rightarrow> string \<Rightarrow> string \<Rightarrow> entity" where
  "user n nm em = [(''id'', JNumber n), (''name'', JString nm), (''email'', JString em)]"

text \<open>
  The values of \<^verbatim>\<open>JSON.parse\<close> on the payloads used in the examples of this file;
  the other strings used there are not JSON, and the examples use no string beyond these.
\<close>

definition alice_and_bob :: table where
  "alice_and_bob = users [user 1 ''Alice'' ''bob@x.com'', user 2 ''Bob'' ''alice@y.com'']"

definition bob_payload :: string where
  \<open>bob_payload = ''{"name":"Bob"}''\<close>

definition admin_bob_payload :: string where
  \<open>admin_bob_payload = ''{"role":"admin","name":"Bob"}''\<close>

definition first_name_payload :: string where
  \<open>first_name_payload = ''{"first name":"Bob"}''\<close>

definition example_parse :: "string \<Rightarrow> jsvalue option" where
  "example_parse s =
     (if s = bob_payload then Some (JObject [(''name'', JString ''Bob'')])
      else if s = first_name_payload then Some (JObject [(''first name'', JString ''Bob'')])
      else if s = admin_bob_payload
           then Some (JObject [(''role'', JString ''admin''), (''name'', JString ''Bob'')])
      else if s = ''null'' then Some JNull
      else None)"

section \<open>Notions the properties are stated with\<close>

text \<open>\<open>contains s t\<close>: the text \<open>t\<close> has \<open>s\<close> as a literal substring; \<open>contains_ci\<close> ignores ASCII case.\<close>

fun contains :: "string \<Rightarrow> string \<Rightarrow> bool" where
  "contains s [] = (s = [])"
| "contains s (c # cs) = (starts_with s (c # cs) \<noteq> None \<or> contains s cs)"

definition contains_ci :: "string \<Rightarrow> string \<Rightarrow> bool" where
  "contains_ci s t = contains (toLowerCase s) (toLowerCase t)"

text \<open>The characters with a meaning of their own in a \<^verbatim>\<open>LIKE\<close> pattern.\<close>

definition like_special :: "char \<Rightarrow> bool" where
  "like_special c = (c = CHR ''%'' \<or> c = CHR ''_'' \<or> c = backslash)"

text \<open>
  What it means for the regular expression \<^verbatim>\<open>/for key '(.+)'/\<close> to match a message:
  \<open>group_at rest g\<close> says that \<open>rest\<close> starts with the non-empty text \<open>g\<close> and a quote,
  all on the first line of \<open>rest\<close>; \<open>regex_match m pre g\<close> says that the expression matches
  \<open>m\<close> right after the prefix \<open>pre\<close> with the group \<open>g\<close>.
\<close>

definition group_at :: "string \<Rightarrow> string \<Rightarrow> bool" where
  "group_at rest g = (g \<noteq> [] \<and> starts_with (g @ [quote]) (line_of rest) \<noteq> None)"

definition regex_match :: "string \<Rightarrow> string \<Rightarrow> string \<Rightarrow> bool" where
  "regex_match m pre g =
     (case starts_with (pre @ ''for key '' @ [quote]) m of
        None \<Rightarrow> False
      | Some rest \<Rightarrow> group_at rest g)"

text \<open>The keys of a filter object that \<^verbatim>\<open>setParameter\<close> accepts inside a parameter name.\<close>

definition filter_keys_ok :: "(string \<times> jsvalue) list \<Rightarrow> bool" where
  "filter_keys_ok kvs = list_all (\<lambda>kv. list_all parameter_key_char (fst kv)) kvs"

text \<open>The equality predicate and the bound parameter that one filter entry stands for.\<close>

definition filter_clause :: "string \<times> jsvalue \<Rightarrow> where_clause" where
  "filter_clause kv = Where W_and (''e.'' @ fst kv @ '' = :filter_'' @ fst kv)"

definition filter_parameter :: "string \<times> jsvalue \<Rightarrow> string \<times> jsvalue" where
  "filter_parameter kv = (''filter_'' @ fst kv, snd kv)"

text \<open>The parenthesised group and the parameters that a search over the columns \<open>cols\<close> stands for.\<close>

definition search_condition :: "nat \<times> string \<Rightarrow> where_op \<times> string" where
  "search_condition ic =
     (if fst ic = 0 then W_simple else W_or,
      ''e.'' @ snd ic @ '' LIKE :search_'' @ string_of_nat (fst ic))"

definition search_parameter :: "string \<Rightarrow> nat \<times> string \<Rightarrow> string \<times> jsvalue" where
  "search_parameter s ic = (''search_'' @ string_of_nat (fst ic), JString (''%'' @ s @ ''%''))"

definition search_clauses :: "string list \<Rightarrow> string option \<Rightarrow> where_clause list" where
  "search_clauses cols srch =
     (if truthy srch \<and> cols \<noteq> [] then [Brackets W_and (map search_condition (enumerate 0 cols))]
      else [])"

definition search_parameters :: "string list \<Rightarrow> string option \<Rightarrow> (string \<times> jsvalue) list" where
  "search_parameters cols srch =
     (case srch of
        None \<Rightarrow> []
      | Some s \<Rightarrow> if s = [] then [] else map (search_parameter s) (enumerate 0 cols))"

text \<open>Whether a stored entity has the text \<open>s\<close> literally inside one of the given columns.\<close>

definition column_contains :: "string \<Rightarrow> entity \<Rightarrow> string \<Rightarrow> bool" where
  "column_contains s e col =
     (case map_of e col of Some (JString x) \<Rightarrow> contains s x | _ \<Rightarrow> False)"

text \<open>A request with the defaults of the DTO: page 1, limit 10, ascending, nothing else.\<close>

definition default_request :: AbstractPaginationDto where
  "default_request =
     \<lparr>page = 1, limit = 10, sortBy = None, order = Some ''ASC'', search = None, filters = None\<rparr>"

section \<open>How the query is built\<close>

lemma filter_parameter_key_ok:
  "parameter_key_ok (''filter_'' @ key) \<longleftrightarrow> list_all parameter_key_char key"
  by (simp add: parameter_key_ok_def parameter_key_char_def)

lemma add_filter_step:
  "add_filter qb kv =
     (if list_all parameter_key_char (fst kv)
      then Inr (qb\<lparr>wheres := wheres qb @ [filter_clause kv],
                   parameters := parameters qb @ [filter_parameter kv]\<rparr>)
      else Inl (StorageError None
             ''QueryBuilder parameter keys may only contain numbers, letters, underscores, or periods.''))"
  using filter_parameter_key_ok [of "fst kv"]
  by (simp add: add_filter_def andWhere_def setParameters_def filter_clause_def
        filter_parameter_def Let_def)

lemma add_filters_Inr:
  "filter_keys_ok entries \<Longrightarrow>
   add_filters qb entries =
     Inr (qb\<lparr>wheres := wheres qb @ map filter_clause entries,
             parameters := parameters qb @ map filter_parameter entries\<rparr>)"
proof (induction entries arbitrary: qb)
  case Nil
  show ?case by simp
next
  case (Cons kv entries)
  from Cons.prems have k: "list_all parameter_key_char (fst kv)" and r: "filter_keys_ok entries"
    by (simp_all add: filter_keys_ok_def)
  let ?qb = "qb\<lparr>wheres := wheres qb @ [filter_clause kv],
                parameters := parameters qb @ [filter_parameter kv]\<rparr>"
  have "add_filter qb kv = Inr ?qb"
    using k by (simp only: add_filter_step if_True)
  then have "add_filters qb (kv # entries) = add_filters ?qb entries"
    by simp
  also have "\<dots> = Inr (?qb\<lparr>wheres := wheres ?qb @ map filter_clause entries,
                           parameters := parameters ?qb @ map filter_parameter entries\<rparr>)"
    by (rule Cons.IH [OF r])
  also have "\<dots> = Inr (qb\<lparr>wheres := wheres qb @ map filter_clause (kv # entries),
                          parameters := parameters qb @ map filter_parameter (kv # entries)\<rparr>)"
    by simp
  finally show ?case .
qed

lemma add_filters_Inl:
  "\<not> filter_keys_ok entries \<Longrightarrow> \<exists>err. add_filters qb entries = Inl err"
proof (induction entries arbitrary: qb)
  case Nil
  then show ?case by (simp add: filter_keys_ok_def)
next
  case (Cons kv entries)
  show ?case
  proof (cases "list_all parameter_key_char (fst kv)")
    case False
    then have "\<exists>err. add_filter qb kv = Inl err"
      by (simp only: add_filter_step if_False) blast
    then show ?thesis by auto
  next
    case True
    let ?qb = "qb\<lparr>wheres := wheres qb @ [filter_clause kv],
                  parameters := parameters qb @ [filter_parameter kv]\<rparr>"
    from True have "add_filter qb kv = Inr ?qb"
      by (simp only: add_filter_step if_True)
    then have a: "add_filters qb (kv # entries) = add_filters ?qb entries"
      by simp
    from True Cons.prems have "\<not> filter_keys_ok entries"
      by (simp add: filter_keys_ok_def)
    from Cons.IH [OF this, of ?qb] a show ?thesis by simp
  qed
qed

lemma add_search_later:
  "0 < fst ic \<Longrightarrow>
   add_search s sqb ic =
     sqb\<lparr>sub_wheres := sub_wheres sqb @ [search_condition ic],
         sub_parameters := sub_parameters sqb @ [search_parameter s ic]\<rparr>"
  by (simp add: add_search_def sqb_orWhere_def search_condition_def search_parameter_def Let_def)

lemma add_search_first:
  "fst ic = 0 \<Longrightarrow>
   add_search s sqb ic =
     sqb\<lparr>sub_wheres := [search_condition ic],
         sub_parameters := sub_parameters sqb @ [search_parameter s ic]\<rparr>"
  by (simp add: add_search_def sqb_where_def search_condition_def search_parameter_def Let_def)

lemma foldl_add_search_later:
  "0 < n \<Longrightarrow>
   foldl (add_search s) sqb (enumerate n cols) =
     sqb\<lparr>sub_wheres := sub_wheres sqb @ map search_condition (enumerate n cols),
         sub_parameters := sub_parameters sqb @ map (search_parameter s) (enumerate n cols)\<rparr>"
proof (induction cols arbitrary: n sqb)
  case Nil
  show ?case by simp
next
  case (Cons c cols)
  let ?sqb = "add_search s sqb (n, c)"
  have "foldl (add_search s) sqb (enumerate n (c # cols)) =
          foldl (add_search s) ?sqb (enumerate (Suc n) cols)"
    by simp
  also have "\<dots> = ?sqb
      \<lparr>sub_wheres := sub_wheres ?sqb @ map search_condition (enumerate (Suc n) cols),
       sub_parameters := sub_parameters ?sqb @ map (search_parameter s) (enumerate (Suc n) cols)\<rparr>"
    by (rule Cons.IH) simp
  also have "\<dots> = sqb
      \<lparr>sub_wheres := sub_wheres sqb @ map search_condition (enumerate n (c # cols)),
       sub_parameters := sub_parameters sqb @ map (search_parameter s) (enumerate n (c # cols))\<rparr>"
    using Cons.prems by (simp add: add_search_later)
  finally show ?case .
qed

lemma foldl_add_search:
  "cols \<noteq> [] \<Longrightarrow>
   foldl (add_search s) \<lparr>sub_wheres = [], sub_parameters = ps\<rparr> (enumerate 0 cols) =
     \<lparr>sub_wheres = map search_condition (enumerate 0 cols),
      sub_parameters = ps @ map (search_parameter s) (enumerate 0 cols)\<rparr>"
proof (cases cols)
  case Nil
  assume "cols \<noteq> []"
  with Nil show ?thesis by simp
next
  case (Cons c cs)
  let ?sqb = "add_search s \<lparr>sub_wheres = [], sub_parameters = ps\<rparr> (0, c)"
  have "foldl (add_search s) \<lparr>sub_wheres = [], sub_parameters = ps\<rparr> (enumerate 0 (c # cs)) =
          foldl (add_search s) ?sqb (enumerate (Suc 0) cs)"
    by simp
  also have "\<dots> = ?sqb
      \<lparr>sub_wheres := sub_wheres ?sqb @ map search_condition (enumerate (Suc 0) cs),
       sub_parameters := sub_parameters ?sqb @ map (search_parameter s) (enumerate (Suc 0) cs)\<rparr>"
    by (rule foldl_add_search_later) simp
  also have "\<dots> = \<lparr>sub_wheres = map search_condition (enumerate 0 (c # cs)),
      sub_parameters = ps @ map (search_parameter s) (enumerate 0 (c # cs))\<rparr>"
    by (simp add: add_search_first)
  finally show ?thesis unfolding Cons .
qed

lemma search_parameters_Nil: "search_parameters [] srch = []"
  by (simp add: search_parameters_def split: option.splits)

lemma apply_search_eq:
  "apply_search cols srch qb =
     qb\<lparr>wheres := wheres qb @ search_clauses cols srch,
        parameters := parameters qb @ search_parameters cols srch\<rparr>"
proof (cases "cols = []")
  case True
  then show ?thesis
    by (cases srch) (simp_all add: apply_search_def search_clauses_def search_parameters_def)
next
  case False
  then show ?thesis
    by (cases srch)
       (simp_all add: apply_search_def search_clauses_def search_parameters_def
          andWhere_Brackets_def foldl_add_search Let_def)
qed

lemma apply_filters_cases:
  "apply_filters JP fs qb =
     (case fs of
        None \<Rightarrow> Inr qb
      | Some f \<Rightarrow>
          if f = [] then Inr qb
          else (case JP f of
                  None \<Rightarrow> Inl (BadRequestException ''Invalid filters JSON'')
                | Some parsed \<Rightarrow>
                    (case Object_entries parsed of
                       None \<Rightarrow> Inl (BadRequestException ''Invalid filters JSON'')
                     | Some entries \<Rightarrow>
                         if filter_keys_ok entries
                         then Inr (qb\<lparr>wheres := wheres qb @ map filter_clause entries,
                                      parameters := parameters qb @ map filter_parameter entries\<rparr>)
                         else Inl (BadRequestException ''Invalid filters JSON''))))"
proof -
  have ok: "\<And>entries. filter_keys_ok entries \<Longrightarrow>
      (case add_filters qb entries of
         Inl err \<Rightarrow> Inl (BadRequestException ''Invalid filters JSON'')
       | Inr qb' \<Rightarrow> Inr qb') =
      Inr (qb\<lparr>wheres := wheres qb @ map filter_clause entries,
              parameters := parameters qb @ map filter_parameter entries\<rparr>)"
    by (simp add: add_filters_Inr)
  have bad: "\<And>entries. \<not> filter_keys_ok entries \<Longrightarrow>
      (case add_filters qb entries of
         Inl err \<Rightarrow> Inl (BadRequestException ''Invalid filters JSON'')
       | Inr qb' \<Rightarrow> Inr qb') = Inl (BadRequestException ''Invalid filters JSON'')"
    using add_filters_Inl [of _ qb] by fastforce
  show ?thesis
    by (simp add: apply_filters_def ok bad split: option.splits)
qed

lemma apply_filters_Inr:
  assumes "apply_filters JP fs qb = Inr qb1"
  shows "\<exists>entries. qb1 = qb\<lparr>wheres := wheres qb @ map filter_clause entries,
                           parameters := parameters qb @ map filter_parameter entries\<rparr>"
proof -
  have nil: "qb = qb\<lparr>wheres := wheres qb @ map filter_clause [],
                     parameters := parameters qb @ map filter_parameter []\<rparr>"
    by simp
  from assms show ?thesis
    unfolding apply_filters_cases
    by (auto split: option.splits if_splits intro: exI [of _ "[]"])
qed

text \<open>The names the search binds are accepted by \<^verbatim>\<open>setParameter\<close>, whatever the index.\<close>

lemma digits_of_nat: "list_all parameter_key_char (string_of_nat n)"
proof (induction n rule: string_of_nat.induct)
  case (1 n)
  have d: "\<And>d. d < 10 \<Longrightarrow> parameter_key_char (digit_char d)"
    by (simp add: parameter_key_char_def digit_char_def)
  show ?case
  proof (cases "n < 10")
    case True
    then show ?thesis
      using d [of n] by (subst string_of_nat.simps) simp
  next
    case False
    then show ?thesis
      using "1.IH" d [of "n mod 10"] by (subst string_of_nat.simps) simp
  qed
qed

lemma search_parameter_key_ok: "parameter_key_ok (''search_'' @ string_of_nat idx)"
  using digits_of_nat [of idx] by (simp add: parameter_key_ok_def parameter_key_char_def)

lemma findAll_query_Inr:
  "apply_filters JP (filters p) (createQueryBuilder ''e'') = Inr qb1 \<Longrightarrow>
   findAll_query JP this p =
     Inr \<lparr>main_alias = ''e'',
          wheres = wheres qb1 @ search_clauses (getSearchableColumns this) (search p),
          parameters = parameters qb1 @ search_parameters (getSearchableColumns this) (search p),
          orderBys = [(''e.'' @ safeSort (getSortableColumns this) (sortBy p),
                       sort_direction (order p))],
          skip_rows = Some ((page p - 1) * limit p),
          take_rows = Some (limit p)\<rparr>"
  apply (simp add: findAll_query_def apply_search_eq apply_sort_def orderBy_def skip_def take_qb_def Let_def)
  apply (auto simp add: apply_filters_cases createQueryBuilder_def split: option.splits if_splits)
  done

lemma findAll_query_Inl:
  "apply_filters JP (filters p) (createQueryBuilder ''e'') = Inl err \<Longrightarrow>
   findAll_query JP this p = Inl err"
  by (simp add: findAll_query_def)

section \<open>The filters payload\<close>

text \<open>
  Claim C1. A \<^verbatim>\<open>filters\<close> payload that \<^verbatim>\<open>JSON.parse\<close> rejects makes the inner \<^verbatim>\<open>catch\<close>
  throw \<^verbatim>\<open>BadRequestException\<close>, but the outer \<^verbatim>\<open>catch\<close> of \<^verbatim>\<open>findAll\<close> catches that
  exception too and rethrows it as \<^verbatim>\<open>InternalServerErrorException\<close> with the same
  message: the caller sees Internal, not InvalidArgument. The empty string is not JSON
  either; being falsy it is treated exactly as an absent payload.
\<close>

theorem C1_unparsable_filters_end_as_internal:
  assumes "filters p = Some f" and "JSON_parse f = None"
  shows "findAll JSON_parse this p s =
           (if f = [] then findAll JSON_parse this (p\<lparr>filters := None\<rparr>) s
            else Inl (InternalServerErrorException ''Invalid filters JSON''))"
proof (cases "f = []")
  case True
  have "findAll_query JSON_parse this p = findAll_query JSON_parse this (p\<lparr>filters := None\<rparr>)"
    using assms(1) True by (simp add: findAll_query_def apply_filters_def)
  then show ?thesis
    using True by (simp add: findAll_def findAll_try_def split: sum.splits)
next
  case False
  have "apply_filters JSON_parse (filters p) (createQueryBuilder ''e'')
          = Inl (BadRequestException ''Invalid filters JSON'')"
    using assms False by (simp add: apply_filters_def)
  then have "findAll_query JSON_parse this p = Inl (BadRequestException ''Invalid filters JSON'')"
    by (rule findAll_query_Inl)
  then show ?thesis
    using False by (simp add: findAll_def findAll_try_def)
qed

theorem C1_unparsable_filters_witness:
  "findAll example_parse (UserRepository mem_repository)
     (default_request\<lparr>filters := Some ''{''\<rparr>) (users [])
   = Inl (InternalServerErrorException ''Invalid filters JSON'')"
  using C1_unparsable_filters_end_as_internal
          [of "default_request\<lparr>filters := Some ''{''\<rparr>" "''{''" example_parse
              "UserRepository mem_repository" "users []"]
  by (simp add: example_parse_def bob_payload_def admin_bob_payload_def first_name_payload_def)

text \<open>
  A payload that is JSON but parses to \<^verbatim>\<open>null\<close> ends the same way: \<^verbatim>\<open>Object.keys(null)\<close>
  throws inside the inner \<^verbatim>\<open>try\<close>.
\<close>

lemma findAll_null_payload:
  assumes "filters p = Some f" and "f \<noteq> []" and "JSON_parse f = Some JNull"
  shows "findAll JSON_parse this p s = Inl (InternalServerErrorException ''Invalid filters JSON'')"
proof -
  have "apply_filters JSON_parse (filters p) (createQueryBuilder ''e'')
          = Inl (BadRequestException ''Invalid filters JSON'')"
    using assms by (simp add: apply_filters_def)
  then have "findAll_query JSON_parse this p = Inl (BadRequestException ''Invalid filters JSON'')"
    by (rule findAll_query_Inl)
  then show ?thesis
    by (simp add: findAll_def findAll_try_def)
qed

text \<open>
  Claim C2, as amended. When \<^verbatim>\<open>filters\<close> is a non-empty string that parses to an object
  whose keys consist of letters, digits, underscores and periods, the query gets one
  \<^verbatim>\<open>AND\<close>-connected equality predicate \<^verbatim>\<open>e.<key> = :filter_<key>\<close> per property of the
  object, in enumeration order, each bound to the property's value, followed only by the
  search group. Such a key is used as it comes, whatever the column lists of the
  repository are. When a key has any other character, \<^verbatim>\<open>andWhere\<close> throws inside the
  inner \<^verbatim>\<open>try\<close> and the payload is refused as \<^verbatim>\<open>'Invalid filters JSON'\<close>: no query is
  built. When \<^verbatim>\<open>filters\<close> is absent the where clauses are those of the search alone.
\<close>

theorem C2_one_equality_predicate_per_filter_key:
  "(filters p = Some f \<and> f \<noteq> [] \<and> JSON_parse f = Some (JObject kvs) \<and>
    list_all (\<lambda>kv. list_all parameter_key_char (fst kv)) kvs \<longrightarrow>
      (\<exists>qb. findAll_query JSON_parse this p = Inr qb \<and>
            wheres qb = map (\<lambda>kv. Where W_and (''e.'' @ fst kv @ '' = :filter_'' @ fst kv)) kvs
                          @ search_clauses (getSearchableColumns this) (search p) \<and>
            parameters qb = map (\<lambda>kv. (''filter_'' @ fst kv, snd kv)) kvs
                          @ search_parameters (getSearchableColumns this) (search p)))
   \<and> (filters p = Some f \<and> f \<noteq> [] \<and> JSON_parse f = Some (JObject kvs) \<and>
      \<not> list_all (\<lambda>kv. list_all parameter_key_char (fst kv)) kvs \<longrightarrow>
      findAll_query JSON_parse this p = Inl (BadRequestException ''Invalid filters JSON''))
   \<and> (filters p = None \<longrightarrow>
      (\<exists>qb. findAll_query JSON_parse this p = Inr qb \<and>
            wheres qb = search_clauses (getSearchableColumns this) (search p) \<and>
            parameters qb = search_parameters (getSearchableColumns this) (search p)))"
proof (intro conjI impI)
  assume a: "filters p = Some f \<and> f \<noteq> [] \<and> JSON_parse f = Some (JObject kvs) \<and>
             list_all (\<lambda>kv. list_all parameter_key_char (fst kv)) kvs"
  let ?qb1 = "(createQueryBuilder ''e'')\<lparr>wheres := map filter_clause kvs,
                 parameters := map filter_parameter kvs\<rparr>"
  have "apply_filters JSON_parse (filters p) (createQueryBuilder ''e'') = Inr ?qb1"
    using a by (simp add: apply_filters_cases createQueryBuilder_def filter_keys_ok_def)
  from findAll_query_Inr [OF this, of this]
  show "\<exists>qb. findAll_query JSON_parse this p = Inr qb \<and>
            wheres qb = map (\<lambda>kv. Where W_and (''e.'' @ fst kv @ '' = :filter_'' @ fst kv)) kvs
                          @ search_clauses (getSearchableColumns this) (search p) \<and>
            parameters qb = map (\<lambda>kv. (''filter_'' @ fst kv, snd kv)) kvs
                          @ search_parameters (getSearchableColumns this) (search p)"
    by (simp add: filter_clause_def filter_parameter_def)
next
  assume a: "filters p = Some f \<and> f \<noteq> [] \<and> JSON_parse f = Some (JObject kvs) \<and>
             \<not> list_all (\<lambda>kv. list_all parameter_key_char (fst kv)) kvs"
  have "apply_filters JSON_parse (filters p) (createQueryBuilder ''e'')
          = Inl (BadRequestException ''Invalid filters JSON'')"
    using a by (simp add: apply_filters_cases filter_keys_ok_def)
  then show "findAll_query JSON_parse this p = Inl (BadRequestException ''Invalid filters JSON'')"
    by (rule findAll_query_Inl)
next
  assume a: "filters p = None"
  have "apply_filters JSON_parse (filters p) (createQueryBuilder ''e'') = Inr (createQueryBuilder ''e'')"
    using a by (simp add: apply_filters_cases)
  from findAll_query_Inr [OF this, of this]
  show "\<exists>qb. findAll_query JSON_parse this p = Inr qb \<and>
            wheres qb = search_clauses (getSearchableColumns this) (search p) \<and>
            parameters qb = search_parameters (getSearchableColumns this) (search p)"
    by (simp add: createQueryBuilder_def)
qed

theorem C2_filter_predicates_witness:
  "\<exists>qb. findAll_query example_parse (UserRepository mem_repository)
           (default_request\<lparr>filters := Some admin_bob_payload\<rparr>) = Inr qb \<and>
        wheres qb = [Where W_and ''e.role = :filter_role'', Where W_and ''e.name = :filter_name''] \<and>
        parameters qb = [(''filter_role'', JString ''admin''), (''filter_name'', JString ''Bob'')]"
  using C2_one_equality_predicate_per_filter_key
          [of "default_request\<lparr>filters := Some admin_bob_payload\<rparr>" admin_bob_payload example_parse
              "[(''role'', JString ''admin''), (''name'', JString ''Bob'')]"
              "UserRepository mem_repository"]
  by (simp add: example_parse_def bob_payload_def admin_bob_payload_def first_name_payload_def
        default_request_def search_clauses_def search_parameters_def UserRepository_def
        parameter_key_char_def)

text \<open>
  The claim as stated fails: the key \<^verbatim>\<open>first name\<close> has a space, so no predicate and no
  query is built for it, and \<^verbatim>\<open>findAll\<close> fails.
\<close>

theorem C2_key_with_space_counterexample:
  "findAll_query example_parse (UserRepository mem_repository)
     (default_request\<lparr>filters := Some first_name_payload\<rparr>)
     = Inl (BadRequestException ''Invalid filters JSON'') \<and>
   findAll example_parse (UserRepository mem_repository)
     (default_request\<lparr>filters := Some first_name_payload\<rparr>) (users [])
     = Inl (InternalServerErrorException ''Invalid filters JSON'')"
  by (simp add: findAll_def findAll_try_def findAll_query_def apply_filters_def add_filter_def
        andWhere_def setParameters_def parameter_key_ok_def parameter_key_char_def
        example_parse_def bob_payload_def admin_bob_payload_def first_name_payload_def
        default_request_def createQueryBuilder_def UserRepository_def Let_def)

section \<open>The sort clause\<close>

text \<open>Rules that evaluate the string functions and the examples on concrete inputs.\<close>

lemmas text_eval =
  toUpperCase_def toUpperCase_char_def toLowerCase_def toLowerCase_char_def same_letter_def
  string_of_int_def string_of_nat.simps digit_char_def char_of_def bit_0 quote_def backslash_def

lemmas example_eval =
  example_parse_def bob_payload_def admin_bob_payload_def first_name_payload_def
  default_request_def UserRepository_def users_def user_def mem_repository_def

lemma findAll_query_success:
  assumes "findAll_query JSON_parse this p = Inr qb"
  obtains qb1 where "apply_filters JSON_parse (filters p) (createQueryBuilder ''e'') = Inr qb1"
proof (cases "apply_filters JSON_parse (filters p) (createQueryBuilder ''e'')")
  case (Inl err)
  from findAll_query_Inl [OF this, of this] assms show ?thesis by simp
next
  case (Inr qb1)
  then show ?thesis by (rule that)
qed

text \<open>
  Claim C3. Whenever the query is built, it has exactly one order-by clause. Its column
  is \<^verbatim>\<open>sortBy\<close> when \<^verbatim>\<open>sortBy\<close> is present (a non-empty string) and a member of the
  sortable columns, and the primary key \<^verbatim>\<open>id\<close> in every other case, so a column
  outside the list is never the one sorted by. The direction is \<^verbatim>\<open>DESC\<close> exactly when
  \<^verbatim>\<open>order\<close> is present and its upper-case form is \<^verbatim>\<open>'DESC'\<close>, and \<^verbatim>\<open>ASC\<close> otherwise.
  No value of \<^verbatim>\<open>sortBy\<close> or \<^verbatim>\<open>order\<close> makes the construction fail.
\<close>

theorem C3_sort_column_is_whitelisted:
  assumes "findAll_query JSON_parse this p = Inr qb"
  shows "\<exists>col dir. orderBys qb = [(''e.'' @ col, dir)] \<and>
           (\<forall>c. sortBy p = Some c \<and> c \<noteq> [] \<and> c \<in> set (getSortableColumns this) \<longrightarrow> col = c) \<and>
           ((\<forall>c. sortBy p = Some c \<longrightarrow> c = [] \<or> c \<notin> set (getSortableColumns this)) \<longrightarrow> col = ''id'') \<and>
           (dir = DESC \<longleftrightarrow> (\<exists>d. order p = Some d \<and> toUpperCase d = ''DESC'')) \<and>
           (dir = ASC \<longleftrightarrow> (\<forall>d. order p = Some d \<longrightarrow> toUpperCase d \<noteq> ''DESC'')) \<and>
           (\<forall>sb od. \<exists>qb'. findAll_query JSON_parse this (p\<lparr>sortBy := sb, order := od\<rparr>) = Inr qb')"
proof -
  from assms obtain qb1
    where f: "apply_filters JSON_parse (filters p) (createQueryBuilder ''e'') = Inr qb1"
    by (rule findAll_query_success)
  have q: "orderBys qb = [(''e.'' @ safeSort (getSortableColumns this) (sortBy p), sort_direction (order p))]"
    using findAll_query_Inr [OF f, of this] assms by auto
  have up: "toUpperCase [] \<noteq> ''DESC''"
    by (simp add: toUpperCase_def)
  have c1: "\<forall>c. sortBy p = Some c \<and> c \<noteq> [] \<and> c \<in> set (getSortableColumns this)
              \<longrightarrow> safeSort (getSortableColumns this) (sortBy p) = c"
    by (simp add: safeSort_def)
  have c2: "(\<forall>c. sortBy p = Some c \<longrightarrow> c = [] \<or> c \<notin> set (getSortableColumns this))
              \<longrightarrow> safeSort (getSortableColumns this) (sortBy p) = ''id''"
    by (cases "sortBy p") (auto simp add: safeSort_def)
  have c3: "sort_direction (order p) = DESC \<longleftrightarrow> (\<exists>d. order p = Some d \<and> toUpperCase d = ''DESC'')"
    using up by (cases "order p") (auto simp add: sort_direction_def)
  have c4: "sort_direction (order p) = ASC \<longleftrightarrow> (\<forall>d. order p = Some d \<longrightarrow> toUpperCase d \<noteq> ''DESC'')"
    using up by (cases "order p") (auto simp add: sort_direction_def)
  have c5: "\<forall>sb od. \<exists>qb'. findAll_query JSON_parse this (p\<lparr>sortBy := sb, order := od\<rparr>) = Inr qb'"
  proof (intro allI)
    fix sb od
    have "apply_filters JSON_parse (filters (p\<lparr>sortBy := sb, order := od\<rparr>)) (createQueryBuilder ''e'')
            = Inr qb1"
      using f by simp
    from findAll_query_Inr [OF this, of this]
    show "\<exists>qb'. findAll_query JSON_parse this (p\<lparr>sortBy := sb, order := od\<rparr>) = Inr qb'"
      by blast
  qed
  from q c1 c2 c3 c4 c5 show ?thesis by blast
qed

theorem C3_sort_whitelist_witness:
  "\<exists>qb. findAll_query example_parse (UserRepository mem_repository)
           (default_request\<lparr>sortBy := Some ''password'', order := Some ''desc''\<rparr>) = Inr qb \<and>
        orderBys qb = [(''e.id'', DESC)]"
proof -
  let ?p = "default_request\<lparr>sortBy := Some ''password'', order := Some ''desc''\<rparr>"
  have "apply_filters example_parse (filters ?p) (createQueryBuilder ''e'') = Inr (createQueryBuilder ''e'')"
    by (simp add: apply_filters_def default_request_def)
  from findAll_query_Inr [OF this, of "UserRepository mem_repository"]
  obtain qb where q: "findAll_query example_parse (UserRepository mem_repository) ?p = Inr qb"
    by blast
  from C3_sort_column_is_whitelisted [OF q]
  obtain col dir where o: "orderBys qb = [(''e.'' @ col, dir)]"
    and c: "(\<forall>c. sortBy ?p = Some c \<longrightarrow> c = [] \<or> c \<notin> set (getSortableColumns (UserRepository mem_repository)))
              \<longrightarrow> col = ''id''"
    and d: "dir = DESC \<longleftrightarrow> (\<exists>d. order ?p = Some d \<and> toUpperCase d = ''DESC'')"
    by blast
  from c have "col = ''id''"
    by (simp add: default_request_def UserRepository_def)
  moreover from d have "dir = DESC"
    by (simp add: default_request_def text_eval)
  ultimately show ?thesis using q o by simp
qed


section \<open>Point operations\<close>

text \<open>
  Claim C6, as amended. \<^verbatim>\<open>findOne\<close> fails with \<^verbatim>\<open>BadRequestException\<close> when the id is
  \<^verbatim>\<open>NaN\<close>, the one test the code makes on the id. For every other id, zero and the
  negative integers included, it fails with \<^verbatim>\<open>NotFoundException\<close> when the storage has
  no row for the id, and returns the row otherwise; its result type has no null, and
  once the storage has answered it never fails with \<^verbatim>\<open>BadRequestException\<close>. On the
  reference engine: an id that no row carries gives NotFound, an id that a row carries
  gives such a row.
\<close>

theorem C6_findOne_outcomes:
  "(isNaN ident \<longrightarrow> findOne this ident s = Inl (BadRequestException ''Invalid id format'')) \<and>
   (\<not> isNaN ident \<and> repo_findOne (repository this) ident s = Inr None \<longrightarrow>
      findOne this ident s =
        Inl (NotFoundException (''Entity with id '' @ string_of_number ident @ '' not found''))) \<and>
   (\<not> isNaN ident \<and> repo_findOne (repository this) ident s = Inr (Some e) \<longrightarrow>
      findOne this ident s = Inr e) \<and>
   (repository that = mem_repository \<and> \<not> list_ex (has_id n) (rows t) \<longrightarrow>
      findOne that (Num n) t =
        Inl (NotFoundException (''Entity with id '' @ string_of_int n @ '' not found''))) \<and>
   (repository that = mem_repository \<and> list_ex (has_id n) (rows t) \<longrightarrow>
      (\<exists>r. findOne that (Num n) t = Inr r \<and> r \<in> set (rows t) \<and> has_id n r)) \<and>
   (\<not> isNaN ident \<and> repo_findOne (repository this) ident s = Inr answer \<longrightarrow>
      (\<forall>m. findOne this ident s \<noteq> Inl (BadRequestException m)))"
proof (intro conjI impI)
  assume "isNaN ident"
  then show "findOne this ident s = Inl (BadRequestException ''Invalid id format'')"
    by (simp add: findOne_def)
next
  assume "\<not> isNaN ident \<and> repo_findOne (repository this) ident s = Inr answer"
  then show "\<forall>m. findOne this ident s \<noteq> Inl (BadRequestException m)"
    by (cases answer) (simp_all add: findOne_def)
next
  assume "\<not> isNaN ident \<and> repo_findOne (repository this) ident s = Inr None"
  then show "findOne this ident s =
        Inl (NotFoundException (''Entity with id '' @ string_of_number ident @ '' not found''))"
    by (simp add: findOne_def)
next
  assume "\<not> isNaN ident \<and> repo_findOne (repository this) ident s = Inr (Some e)"
  then show "findOne this ident s = Inr e"
    by (simp add: findOne_def)
next
  assume a: "repository that = mem_repository \<and> \<not> list_ex (has_id n) (rows t)"
  then have "List.find (has_id n) (rows t) = None"
    by (simp add: find_None_iff list_ex_iff)
  with a show "findOne that (Num n) t =
        Inl (NotFoundException (''Entity with id '' @ string_of_int n @ '' not found''))"
    by (simp add: findOne_def isNaN_def mem_repository_def mem_findOne_def)
next
  assume a: "repository that = mem_repository \<and> list_ex (has_id n) (rows t)"
  then obtain r where r: "List.find (has_id n) (rows t) = Some r"
    by (cases "List.find (has_id n) (rows t)") (auto simp add: find_None_iff list_ex_iff)
  then have "r \<in> set (rows t) \<and> has_id n r"
    by (auto simp add: find_Some_iff)
  moreover from a r have "findOne that (Num n) t = Inr r"
    by (simp add: findOne_def isNaN_def mem_repository_def mem_findOne_def)
  ultimately show "\<exists>r. findOne that (Num n) t = Inr r \<and> r \<in> set (rows t) \<and> has_id n r"
    by blast
qed

theorem C6_findOne_witness:
  "findOne (UserRepository mem_repository) NaN (users [user 1 ''Alice'' ''a@x.com''])
     = Inl (BadRequestException ''Invalid id format'') \<and>
   findOne (UserRepository mem_repository) (Num 3) (users [user 1 ''Alice'' ''a@x.com''])
     = Inl (NotFoundException ''Entity with id 3 not found'') \<and>
   findOne (UserRepository mem_repository) (Num 1) (users [user 1 ''Alice'' ''a@x.com''])
     = Inr (user 1 ''Alice'' ''a@x.com'')"
  using C6_findOne_outcomes
          [of NaN "UserRepository mem_repository" "users [user 1 ''Alice'' ''a@x.com'']"
              "user 1 ''Alice'' ''a@x.com''" "UserRepository mem_repository" 3
              "users [user 1 ''Alice'' ''a@x.com'']"]
        C6_findOne_outcomes
          [of "Num 1" "UserRepository mem_repository" "users [user 1 ''Alice'' ''a@x.com'']"
              "user 1 ''Alice'' ''a@x.com''" "UserRepository mem_repository" 3
              "users [user 1 ''Alice'' ''a@x.com'']"]
  by (simp add: isNaN_def example_eval mem_findOne_def has_id_def text_eval)

text \<open>
  The claim as stated fails when a well-formed identifier is a positive integer: the ids
  \<^verbatim>\<open>-5\<close> and \<^verbatim>\<open>0\<close> are not, and \<^verbatim>\<open>findOne\<close> answers them with NotFound, not with
  InvalidArgument.
\<close>

theorem C6_negative_id_counterexample:
  "findOne (UserRepository mem_repository) (Num (- 5)) (users [user 1 ''Alice'' ''a@x.com''])
     = Inl (NotFoundException ''Entity with id -5 not found'') \<and>
   findOne (UserRepository mem_repository) (Num 0) (users [user 1 ''Alice'' ''a@x.com''])
     = Inl (NotFoundException ''Entity with id 0 not found'')"
  by (simp add: findOne_def isNaN_def example_eval mem_findOne_def has_id_def text_eval)



text \<open>
  Claim C5. \<^verbatim>\<open>update\<close> reads the row back with \<^verbatim>\<open>this.findOne\<close> inside its \<^verbatim>\<open>try\<close>
  block. When the row does not exist, the \<^verbatim>\<open>NotFoundException\<close> of \<^verbatim>\<open>findOne\<close> is
  caught by the \<^verbatim>\<open>catch\<close> of \<^verbatim>\<open>update\<close>; it has no \<^verbatim>\<open>code\<close>, so it is rethrown as
  \<^verbatim>\<open>InternalServerErrorException\<close> with the same message: the caller sees Internal,
  not NotFound.
\<close>

theorem C5_update_of_missing_row_ends_as_internal:
  assumes "repo_update (repository this) (Num n) e s = (Inr u, s')"
    and "repo_findOne (repository this) (Num n) s' = Inr None"
  shows "update this (Num n) e s =
           (Inl (InternalServerErrorException (''Entity with id '' @ string_of_int n @ '' not found'')), s')"
  using assms
  by (simp add: update_def isNaN_def findOne_def catch_write_def)

theorem C5_update_missing_row_witness:
  "update (UserRepository mem_repository) (Num 7) [(''name'', JString ''Carol'')]
      (users [user 1 ''Alice'' ''a@x.com''])
   = (Inl (InternalServerErrorException ''Entity with id 7 not found''),
      users [user 1 ''Alice'' ''a@x.com''])"
  using C5_update_of_missing_row_ends_as_internal
          [of "UserRepository mem_repository" 7 "[(''name'', JString ''Carol'')]"
              "users [user 1 ''Alice'' ''a@x.com'']" "()" "users [user 1 ''Alice'' ''a@x.com'']"]
  by (simp add: example_eval mem_update_def mem_findOne_def stored_fields_def has_id_def text_eval)

text \<open>The other outcomes of \<^verbatim>\<open>update\<close>: a \<^verbatim>\<open>NaN\<close> id, a failing write, and success.\<close>

lemma update_other_outcomes:
  "(isNaN ident \<longrightarrow> update this ident e s = (Inl (BadRequestException ''Invalid id format''), s)) \<and>
   (\<not> isNaN ident \<and> repo_update (repository this) ident e s = (Inl err, s') \<longrightarrow>
      update this ident e s = (Inl (catch_write err), s')) \<and>
   (\<not> isNaN ident \<and> repo_update (repository this) ident e s = (Inr u, s') \<and>
    repo_findOne (repository this) ident s' = Inr (Some r) \<longrightarrow>
      update this ident e s = (Inr r, s'))"
  by (simp add: update_def findOne_def)

section \<open>Error translation of the writes\<close>

text \<open>The model of the regular expression against what it means for the expression to match.\<close>

lemma starts_with_Some: "starts_with p s = Some r \<Longrightarrow> s = p @ r"
  by (induction p s rule: starts_with.induct) (auto split: if_splits)

lemma starts_with_append: "starts_with p (p @ r) = Some r"
  by (induction p) auto

lemma starts_with_eq: "starts_with p s = Some r \<longleftrightarrow> s = p @ r"
  using starts_with_Some starts_with_append by blast

lemma starts_with_None: "starts_with p s = None \<longleftrightarrow> (\<forall>r. s \<noteq> p @ r)"
proof (cases "starts_with p s")
  case None
  then show ?thesis using starts_with_append [of p] by auto
next
  case (Some r)
  then show ?thesis using starts_with_Some by auto
qed

lemma group_at_iff: "group_at rest g \<longleftrightarrow> g \<noteq> [] \<and> (\<exists>u. line_of rest = g @ quote # u)"
proof -
  have "starts_with (g @ [quote]) (line_of rest) \<noteq> None \<longleftrightarrow> (\<exists>u. line_of rest = (g @ [quote]) @ u)"
    by (simp only: starts_with_None) blast
  then show ?thesis by (simp add: group_at_def)
qed

lemma greedy_group_no_quote:
  assumes "quote \<notin> set (line_of rest)"
  shows "greedy_group rest = None"
proof -
  have "dropWhile (\<lambda>c. c \<noteq> quote) (rev (line_of rest)) = []"
    using assms by auto
  then show ?thesis
    unfolding greedy_group_def Let_def by (simp only: list.case)
qed

lemma greedy_group_last_quote:
  assumes "line_of rest = a @ quote # w" and "quote \<notin> set w"
  shows "greedy_group rest = (if a = [] then None else Some a)"
proof -
  have "rev (line_of rest) = rev w @ quote # rev a"
    using assms(1) by simp
  moreover have "dropWhile (\<lambda>c. c \<noteq> quote) (rev w @ quote # rev a) = quote # rev a"
    using assms(2) by (simp add: dropWhile_append)
  ultimately have "dropWhile (\<lambda>c. c \<noteq> quote) (rev (line_of rest)) = quote # rev a"
    by simp
  then show ?thesis by (simp add: greedy_group_def)
qed

lemma group_at_bound:
  assumes "line_of rest = a @ quote # w" and "quote \<notin> set w" and "group_at rest g"
  shows "length g \<le> length a"
proof (rule ccontr)
  assume "\<not> length g \<le> length a"
  then have l: "length a < length g" by simp
  from assms(3) obtain u where u: "line_of rest = g @ quote # u"
    by (auto simp add: group_at_iff)
  with assms(1) have e: "a @ quote # w = g @ quote # u" by simp
  then have "take (length a) (a @ quote # w) = take (length a) (g @ quote # u)" by simp
  then have a: "a = take (length a) g" using l by simp
  then obtain x where g: "g = a @ x"
    by (metis append_take_drop_id)
  with l have "x \<noteq> []" by auto
  from e g have "quote # w = x @ quote # u" by simp
  with \<open>x \<noteq> []\<close> obtain x' where "x = quote # x'" and "w = x' @ quote # u"
    by (cases x) auto
  then have "quote \<in> set w" by simp
  with assms(2) show False by simp
qed

lemma greedy_group_None_iff: "greedy_group rest = None \<longleftrightarrow> (\<forall>g. \<not> group_at rest g)"
proof (cases "quote \<in> set (line_of rest)")
  case False
  then have "\<forall>g. \<not> group_at rest g"
    by (auto simp add: group_at_iff)
  with greedy_group_no_quote [OF False] show ?thesis by simp
next
  case True
  then obtain a w where d: "line_of rest = a @ quote # w" and n: "quote \<notin> set w"
    using split_list_last [of quote "line_of rest"] by blast
  show ?thesis
  proof (cases "a = []")
    case True
    have "\<forall>g. \<not> group_at rest g"
    proof (intro allI notI)
      fix g
      assume g: "group_at rest g"
      from group_at_bound [OF d n g] True have "g = []" by simp
      with g show False by (simp add: group_at_iff)
    qed
    with greedy_group_last_quote [OF d n] True show ?thesis by simp
  next
    case False
    then have "group_at rest a"
      using d by (auto simp add: group_at_iff)
    with greedy_group_last_quote [OF d n] False show ?thesis by auto
  qed
qed

lemma greedy_group_Some_iff:
  "greedy_group rest = Some g \<longleftrightarrow>
     group_at rest g \<and> (\<forall>g'. group_at rest g' \<longrightarrow> length g' \<le> length g)"
proof (cases "quote \<in> set (line_of rest)")
  case False
  then have "\<forall>g. \<not> group_at rest g"
    by (auto simp add: group_at_iff)
  with greedy_group_no_quote [OF False] show ?thesis by simp
next
  case True
  then obtain a w where d: "line_of rest = a @ quote # w" and n: "quote \<notin> set w"
    using split_list_last [of quote "line_of rest"] by blast
  have bound: "\<And>g'. group_at rest g' \<Longrightarrow> length g' \<le> length a"
    by (rule group_at_bound [OF d n])
  show ?thesis
  proof (cases "a = []")
    case True
    have "\<forall>g. \<not> group_at rest g"
    proof (intro allI notI)
      fix g
      assume g: "group_at rest g"
      from bound [OF g] True have "g = []" by simp
      with g show False by (simp add: group_at_iff)
    qed
    with greedy_group_last_quote [OF d n] True show ?thesis by simp
  next
    case False
    then have ga: "group_at rest a"
      using d by (auto simp add: group_at_iff)
    have gg: "greedy_group rest = Some a"
      using greedy_group_last_quote [OF d n] False by simp
    show ?thesis
    proof
      assume "greedy_group rest = Some g"
      with gg have "g = a" by simp
      with ga bound show "group_at rest g \<and> (\<forall>g'. group_at rest g' \<longrightarrow> length g' \<le> length g)"
        by blast
    next
      assume r: "group_at rest g \<and> (\<forall>g'. group_at rest g' \<longrightarrow> length g' \<le> length g)"
      with ga have "length a \<le> length g" by blast
      moreover from r bound have "length g \<le> length a" by blast
      ultimately have l: "length g = length a" by simp
      from r obtain u where "line_of rest = g @ quote # u"
        by (auto simp add: group_at_iff)
      with d have "a @ quote # w = g @ quote # u" by simp
      with l have "g = a" by simp
      with gg show "greedy_group rest = Some g" by simp
    qed
  qed
qed

lemma regex_match_Nil_message: "\<not> regex_match [] pre g"
  by (cases pre) (simp_all add: regex_match_def)

lemma regex_match_here:
  "regex_match m [] g \<longleftrightarrow>
     (case starts_with (''for key '' @ [quote]) m of None \<Rightarrow> False | Some rest \<Rightarrow> group_at rest g)"
  by (simp add: regex_match_def)

lemma regex_match_later:
  "regex_match (c # cs) (d # pre) g \<longleftrightarrow> d = c \<and> regex_match cs pre g"
  by (simp add: regex_match_def)

lemma match_for_key_step:
  "match_for_key (c # cs) =
     (if \<exists>g. regex_match (c # cs) [] g
      then (case starts_with (''for key '' @ [quote]) (c # cs) of
              None \<Rightarrow> None
            | Some rest \<Rightarrow> greedy_group rest)
      else match_for_key cs)"
proof (cases "starts_with (''for key '' @ [quote]) (c # cs)")
  case None
  then have "\<not> (\<exists>g. regex_match (c # cs) [] g)"
    by (simp only: regex_match_here option.case) simp
  with None show ?thesis
    by (simp only: match_for_key.simps option.case if_False)
next
  case (Some rest)
  then have r: "(\<exists>g. regex_match (c # cs) [] g) \<longleftrightarrow> (\<exists>g. group_at rest g)"
    by (simp only: regex_match_here option.case)
  show ?thesis
  proof (cases "greedy_group rest")
    case None
    then have "\<not> (\<exists>g. group_at rest g)"
      by (simp add: greedy_group_None_iff)
    with r have "\<not> (\<exists>g. regex_match (c # cs) [] g)" by simp
    with Some None show ?thesis
      by (simp only: match_for_key.simps option.case if_False)
  next
    case (Some g)
    then have "group_at rest g"
      by (simp add: greedy_group_Some_iff)
    with r have "\<exists>g. regex_match (c # cs) [] g" by blast
    with \<open>starts_with (''for key '' @ [quote]) (c # cs) = Some rest\<close> Some show ?thesis
      by (simp only: match_for_key.simps option.case if_True)
  qed
qed

lemma match_for_key_None_iff:
  "match_for_key m = None \<longleftrightarrow> (\<forall>pre g. \<not> regex_match m pre g)"
proof (induction m)
  case Nil
  show ?case by (simp add: regex_match_Nil_message)
next
  case (Cons c cs)
  show ?case
  proof (cases "\<exists>g. regex_match (c # cs) [] g")
    case True
    then obtain g where g: "regex_match (c # cs) [] g" by blast
    then obtain rest where s: "starts_with (''for key '' @ [quote]) (c # cs) = Some rest"
      and "group_at rest g"
      by (simp only: regex_match_here split: option.splits)
    then have "greedy_group rest \<noteq> None"
      by (auto simp add: greedy_group_None_iff)
    with True s have "match_for_key (c # cs) \<noteq> None"
      by (simp add: match_for_key_step del: match_for_key.simps)
    with g show ?thesis by blast
  next
    case False
    then have m: "match_for_key (c # cs) = match_for_key cs"
      by (simp only: match_for_key_step if_False)
    have "(\<forall>pre g. \<not> regex_match (c # cs) pre g) \<longleftrightarrow> (\<forall>pre g. \<not> regex_match cs pre g)"
    proof
      assume a: "\<forall>pre g. \<not> regex_match (c # cs) pre g"
      show "\<forall>pre g. \<not> regex_match cs pre g"
      proof (intro allI)
        fix pre g
        from a have "\<not> regex_match (c # cs) (c # pre) g" by blast
        then show "\<not> regex_match cs pre g" by (simp add: regex_match_later)
      qed
    next
      assume a: "\<forall>pre g. \<not> regex_match cs pre g"
      show "\<forall>pre g. \<not> regex_match (c # cs) pre g"
      proof (intro allI)
        fix pre g
        show "\<not> regex_match (c # cs) pre g"
        proof (cases pre)
          case Nil
          with False show ?thesis by blast
        next
          case (Cons d ds)
          with a show ?thesis by (simp add: regex_match_later)
        qed
      qed
    qed
    with m Cons.IH show ?thesis by simp
  qed
qed

lemma match_for_key_Some_leftmost_longest:
  "match_for_key m = Some g \<Longrightarrow>
   \<exists>pre0. regex_match m pre0 g \<and>
     (\<forall>pre' g'. regex_match m pre' g' \<longrightarrow>
        length pre0 \<le> length pre' \<and> (length pre' = length pre0 \<longrightarrow> length g' \<le> length g))"
proof (induction m)
  case Nil
  then show ?case by simp
next
  case (Cons c cs)
  show ?case
  proof (cases "\<exists>g. regex_match (c # cs) [] g")
    case True
    then obtain g1 where "regex_match (c # cs) [] g1" by blast
    then obtain rest where s: "starts_with (''for key '' @ [quote]) (c # cs) = Some rest"
      by (simp only: regex_match_here split: option.splits)
    with True Cons.prems have gg: "greedy_group rest = Some g"
      by (simp only: match_for_key_step if_True option.case)
    then have ga: "group_at rest g" and mx: "\<forall>g'. group_at rest g' \<longrightarrow> length g' \<le> length g"
      by (simp_all add: greedy_group_Some_iff)
    from s ga have here: "regex_match (c # cs) [] g"
      by (simp only: regex_match_here option.case)
    have "\<forall>pre' g'. regex_match (c # cs) pre' g' \<longrightarrow>
        length ([]::string) \<le> length pre' \<and> (length pre' = length ([]::string) \<longrightarrow> length g' \<le> length g)"
    proof (intro allI impI conjI)
      fix pre' g' :: string
      show "length ([]::string) \<le> length pre'" by simp
      assume r: "regex_match (c # cs) pre' g'" and "length pre' = length ([]::string)"
      then have "pre' = []" by simp
      with r s have "group_at rest g'"
        by (simp only: regex_match_here option.case)
      with mx show "length g' \<le> length g" by blast
    qed
    with here show ?thesis by blast
  next
    case False
    with Cons.prems have "match_for_key cs = Some g"
      by (simp only: match_for_key_step if_False)
    from Cons.IH [OF this] obtain pre0 where p: "regex_match cs pre0 g"
      and l: "\<forall>pre' g'. regex_match cs pre' g' \<longrightarrow>
        length pre0 \<le> length pre' \<and> (length pre' = length pre0 \<longrightarrow> length g' \<le> length g)"
      by blast
    from p have here: "regex_match (c # cs) (c # pre0) g"
      by (simp add: regex_match_later)
    have "\<forall>pre' g'. regex_match (c # cs) pre' g' \<longrightarrow>
        length (c # pre0) \<le> length pre' \<and>
        (length pre' = length (c # pre0) \<longrightarrow> length g' \<le> length g)"
    proof (intro allI impI)
      fix pre' g' :: string
      assume r: "regex_match (c # cs) pre' g'"
      show "length (c # pre0) \<le> length pre' \<and>
        (length pre' = length (c # pre0) \<longrightarrow> length g' \<le> length g)"
      proof (cases pre')
        case Nil
        with r False show ?thesis by blast
      next
        case (Cons d ds)
        with r have "regex_match cs ds g'" by (simp add: regex_match_later)
        with l have "length pre0 \<le> length ds \<and> (length ds = length pre0 \<longrightarrow> length g' \<le> length g)"
          by blast
        with Cons show ?thesis by simp
      qed
    qed
    with here show ?thesis by blast
  qed
qed

lemma extractDuplicateField_unknown:
  assumes "\<forall>pre g. \<not> regex_match m pre g"
  shows "extractDuplicateField m = ''unknown''"
proof -
  from assms have "match_for_key m = None"
    using match_for_key_None_iff [of m] by blast
  then show ?thesis
    by (simp add: extractDuplicateField_def)
qed

lemma extractDuplicateField_capture:
  assumes "regex_match m pre g"
  shows "\<exists>pre0. regex_match m pre0 (extractDuplicateField m) \<and>
     (\<forall>pre' g'. regex_match m pre' g' \<longrightarrow>
        length pre0 \<le> length pre' \<and>
        (length pre' = length pre0 \<longrightarrow> length g' \<le> length (extractDuplicateField m)))"
proof -
  from assms have "match_for_key m \<noteq> None"
    by (auto simp add: match_for_key_None_iff)
  then obtain g0 where g0: "match_for_key m = Some g0" by blast
  then have "extractDuplicateField m = g0"
    by (simp add: extractDuplicateField_def)
  with match_for_key_Some_leftmost_longest [OF g0] show ?thesis by simp
qed

text \<open>Rules that evaluate the regular expression and the writes of the engine on concrete inputs.\<close>

lemmas regex_eval =
  extractDuplicateField_def greedy_group_def terminator_at_def cr_or_lf_def
  line_separator_def paragraph_separator_def

lemmas save_eval =
  mem_save_def mem_insert_def supplied_id_def stored_fields_def lacks_def clashes_def
  duplicate_entry_def no_default_def

text \<open>
  Claim C4, as amended. \<^verbatim>\<open>create\<close> returns what \<^verbatim>\<open>save\<close> returns. When \<^verbatim>\<open>save\<close> throws an
  error whose \<^verbatim>\<open>code\<close> is \<^verbatim>\<open>'ER_DUP_ENTRY'\<close>, \<^verbatim>\<open>create\<close> fails with \<^verbatim>\<open>ConflictException\<close>,
  and the field it names is what \<^verbatim>\<open>extractDuplicateField\<close> reads out of the error's
  message text: \<^verbatim>\<open>unknown\<close> when \<^verbatim>\<open>/for key '(.+)'/\<close> matches nowhere in the message, and
  otherwise the group of the match that starts leftmost and, there, is longest. Every
  other error of \<^verbatim>\<open>save\<close> becomes \<^verbatim>\<open>InternalServerErrorException\<close> carrying the storage
  error's message unchanged. On the reference engine, an insert that repeats the value of
  a unique column fails with Conflict and leaves the table as it was.
\<close>

theorem C4_create_translates_storage_errors:
  "(repo_save (repository this) e s = (Inr saved, s') \<longrightarrow> create this e s = (Inr saved, s')) \<and>
   (repo_save (repository this) e s = (Inl err, s') \<and> error_code err = Some ''ER_DUP_ENTRY'' \<longrightarrow>
      create this e s =
        (Inl (ConflictException (''Duplicate value for unique field(s): ''
                @ extractDuplicateField (error_message err))), s')) \<and>
   (repo_save (repository this) e s = (Inl err, s') \<and> error_code err \<noteq> Some ''ER_DUP_ENTRY'' \<longrightarrow>
      create this e s = (Inl (InternalServerErrorException (error_message err)), s')) \<and>
   ((\<forall>pre g. \<not> regex_match msg pre g) \<longrightarrow> extractDuplicateField msg = ''unknown'') \<and>
   (regex_match msg pre g \<longrightarrow>
      (\<exists>pre0. regex_match msg pre0 (extractDuplicateField msg) \<and>
         (\<forall>pre' g'. regex_match msg pre' g' \<longrightarrow>
            length pre0 \<le> length pre' \<and>
            (length pre' = length pre0 \<longrightarrow> length g' \<le> length (extractDuplicateField msg))))) \<and>
   (repository that = mem_repository \<and>
    (\<forall>n. supplied_id e = Some n \<longrightarrow> \<not> list_ex (has_id n) (rows t)) \<and>
    List.find (lacks (stored_fields t e)) (required_columns t) = None \<and>
    list_ex (clashes (rows t) (stored_fields t e)) (unique_columns t) \<longrightarrow>
      (\<exists>m. create that e t = (Inl (ConflictException m), t)))"
proof (intro conjI impI)
  assume "repo_save (repository this) e s = (Inr saved, s')"
  then show "create this e s = (Inr saved, s')"
    by (simp add: create_def)
next
  assume "repo_save (repository this) e s = (Inl err, s') \<and> error_code err = Some ''ER_DUP_ENTRY''"
  then show "create this e s =
      (Inl (ConflictException (''Duplicate value for unique field(s): ''
              @ extractDuplicateField (error_message err))), s')"
    by (simp add: create_def catch_write_def)
next
  assume "repo_save (repository this) e s = (Inl err, s') \<and> error_code err \<noteq> Some ''ER_DUP_ENTRY''"
  then show "create this e s = (Inl (InternalServerErrorException (error_message err)), s')"
    by (simp add: create_def catch_write_def)
next
  assume "\<forall>pre g. \<not> regex_match msg pre g"
  then show "extractDuplicateField msg = ''unknown''"
    by (rule extractDuplicateField_unknown)
next
  assume "regex_match msg pre g"
  then show "\<exists>pre0. regex_match msg pre0 (extractDuplicateField msg) \<and>
         (\<forall>pre' g'. regex_match msg pre' g' \<longrightarrow>
            length pre0 \<le> length pre' \<and>
            (length pre' = length pre0 \<longrightarrow> length g' \<le> length (extractDuplicateField msg)))"
    by (rule extractDuplicateField_capture)
next
  assume a: "repository that = mem_repository \<and>
             (\<forall>n. supplied_id e = Some n \<longrightarrow> \<not> list_ex (has_id n) (rows t)) \<and>
             List.find (lacks (stored_fields t e)) (required_columns t) = None \<and>
             list_ex (clashes (rows t) (stored_fields t e)) (unique_columns t)"
  then obtain col where c: "List.find (clashes (rows t) (stored_fields t e)) (unique_columns t) = Some col"
    by (cases "List.find (clashes (rows t) (stored_fields t e)) (unique_columns t)")
       (auto simp add: find_None_iff list_ex_iff)
  have ins: "\<And>n. mem_insert n (stored_fields t e) t = (Inl (duplicate_entry t (stored_fields t e) col), t)"
    using a c by (simp add: mem_insert_def)
  have "mem_save e t = (Inl (duplicate_entry t (stored_fields t e) col), t)"
  proof (cases "supplied_id e")
    case None
    then show ?thesis by (simp add: mem_save_def ins)
  next
    case (Some n)
    with a have "\<not> list_ex (has_id n) (rows t)" by blast
    with Some show ?thesis by (simp add: mem_save_def ins)
  qed
  with a have "repo_save (repository that) e t = (Inl (duplicate_entry t (stored_fields t e) col), t)"
    by (simp add: mem_repository_def)
  then have "create that e t = (Inl (catch_write (duplicate_entry t (stored_fields t e) col)), t)"
    by (simp add: create_def)
  then show "\<exists>m. create that e t = (Inl (ConflictException m), t)"
    by (simp add: catch_write_def duplicate_entry_def)
qed

theorem C4_duplicate_email_witness:
  "create (UserRepository mem_repository)
     [(''name'', JString ''Carol''), (''email'', JString ''a@x.com'')]
     (users [user 1 ''Alice'' ''a@x.com''])
   = (Inl (ConflictException ''Duplicate value for unique field(s): users.email''),
      users [user 1 ''Alice'' ''a@x.com''])"
proof -
  let ?e = "[(''name'', JString ''Carol''), (''email'', JString ''a@x.com'')]"
  let ?t = "users [user 1 ''Alice'' ''a@x.com'']"
  let ?err = "StorageError (Some ''ER_DUP_ENTRY'')
                (''Duplicate entry '' @ [quote] @ ''a@x.com'' @ [quote] @ '' for key ''
                   @ [quote] @ ''users.email'' @ [quote])"
  have save: "repo_save (repository (UserRepository mem_repository)) ?e ?t = (Inl ?err, ?t)"
    by (simp add: example_eval save_eval text_eval)
  have field: "extractDuplicateField (error_message ?err) = ''users.email''"
    by (simp add: regex_eval text_eval)
  from C4_create_translates_storage_errors
         [of "UserRepository mem_repository" ?e ?t "[]" ?t ?err "[]" "[]" "[]"
             "UserRepository mem_repository" ?t]
       save
  have "create (UserRepository mem_repository) ?e ?t =
          (Inl (ConflictException (''Duplicate value for unique field(s): ''
                  @ extractDuplicateField (error_message ?err))), ?t)"
    by simp
  then show ?thesis
    using field by simp
qed

text \<open>
  The claim as stated fails: a missing required column surfaces with MySQL's own message
  text, and the field named by a Conflict comes from parsing the message, which goes
  wrong when the duplicated value itself contains \<^verbatim>\<open>for key '\<close>.
\<close>

theorem C4_raw_message_counterexample:
  "create (UserRepository mem_repository) [(''name'', JString ''Carol'')] (users [])
     = (Inl (InternalServerErrorException
               (''Field '' @ [quote] @ ''email'' @ [quote] @ '' doesn'' @ [quote]
                  @ ''t have a default value'')), users []) \<and>
   create (UserRepository mem_repository)
     [(''name'', JString ''Dave''), (''email'', JString (''for key '' @ [quote] @ ''a''))]
     (users [user 1 ''Carol'' (''for key '' @ [quote] @ ''a'')])
     = (Inl (ConflictException
               (''Duplicate value for unique field(s): a'' @ [quote] @ '' for key ''
                  @ [quote] @ ''users.email'')),
        users [user 1 ''Carol'' (''for key '' @ [quote] @ ''a'')])"
  by (simp add: create_def catch_write_def example_eval save_eval regex_eval text_eval)

text \<open>
  The group does not reach across U+2028: a key name broken by it is not captured, and
  the field is \<^verbatim>\<open>unknown\<close>.
\<close>

lemma extractDuplicateField_line_separator:
  "extractDuplicateField (''for key '' @ [quote] @ ''ab'' @ line_separator @ ''c'' @ [quote])
     = ''unknown''"
  by (simp add: regex_eval text_eval)

text \<open>
  \<^verbatim>\<open>save\<close> on an entity that carries the id of a stored row updates that row: repeating
  the row's own unique value is no conflict.
\<close>

lemma save_with_stored_id_updates:
  "create (UserRepository mem_repository)
     [(''id'', JNumber 1), (''email'', JString ''a@x.com'')]
     (users [user 1 ''Alice'' ''a@x.com''])
   = (Inr [(''id'', JNumber 1), (''email'', JString ''a@x.com'')],
      users [user 1 ''Alice'' ''a@x.com''])"
  by (simp add: create_def example_eval save_eval has_id_def merge_fields_def text_eval Let_def)

text \<open>Rules that evaluate the query construction and the engine on concrete inputs.\<close>

lemmas query_eval =
  findAll_def findAll_try_def findAll_query_def apply_filters_def add_filter_def andWhere_def
  setParameters_def parameter_key_ok_def parameter_key_char_def
  apply_search_def andWhere_Brackets_def add_search_def sqb_where_def sqb_orWhere_def
  apply_sort_def safeSort_def sort_direction_def orderBy_def skip_def take_qb_def
  createQueryBuilder_def Let_def

lemmas engine_eval =
  mem_getManyAndCount_def matching_rows_def compile_condition_def bound_parameter_def
  group_holds_def order_rows_def sort_rows_def row_le_def key_le_def limit_offset_def
  bad_field_def parse_error_def

section \<open>The search group\<close>

text \<open>\<^verbatim>\<open>LIKE\<close> against literal containment.\<close>

lemma starts_with_iff: "starts_with p s \<noteq> None \<longleftrightarrow> (\<exists>r. s = p @ r)"
  using starts_with_Some starts_with_append by fastforce

lemma contains_iff: "contains s t \<longleftrightarrow> (\<exists>pre post. t = pre @ s @ post)"
proof (induction t)
  case Nil
  show ?case by auto
next
  case (Cons c cs)
  have "contains s (c # cs) \<longleftrightarrow> (\<exists>r. c # cs = s @ r) \<or> (\<exists>pre post. cs = pre @ s @ post)"
    using Cons.IH starts_with_iff [of s "c # cs"] by simp
  also have "\<dots> \<longleftrightarrow> (\<exists>pre post. c # cs = pre @ s @ post)"
  proof
    assume "(\<exists>r. c # cs = s @ r) \<or> (\<exists>pre post. cs = pre @ s @ post)"
    then show "\<exists>pre post. c # cs = pre @ s @ post"
    proof
      assume "\<exists>r. c # cs = s @ r"
      then obtain r where "c # cs = [] @ s @ r" by auto
      then show ?thesis by blast
    next
      assume "\<exists>pre post. cs = pre @ s @ post"
      then obtain pre post where "c # cs = (c # pre) @ s @ post" by auto
      then show ?thesis by blast
    qed
  next
    assume "\<exists>pre post. c # cs = pre @ s @ post"
    then obtain pre post where e: "c # cs = pre @ s @ post" by blast
    show "(\<exists>r. c # cs = s @ r) \<or> (\<exists>pre post. cs = pre @ s @ post)"
    proof (cases pre)
      case Nil
      with e show ?thesis by auto
    next
      case (Cons d ds)
      with e have "cs = ds @ s @ post" by simp
      then show ?thesis by blast
    qed
  qed
  finally show ?case .
qed

lemma contains_ci_iff:
  "contains_ci s t \<longleftrightarrow> (\<exists>pre a post. t = pre @ a @ post \<and> toLowerCase a = toLowerCase s)"
proof
  assume "contains_ci s t"
  then obtain pre' post' where "toLowerCase t = pre' @ toLowerCase s @ post'"
    by (auto simp add: contains_ci_def contains_iff)
  then have "map toLowerCase_char t = pre' @ (toLowerCase s @ post')"
    by (simp add: toLowerCase_def)
  then have "\<exists>us vs. t = us @ vs \<and> pre' = map toLowerCase_char us
                  \<and> toLowerCase s @ post' = map toLowerCase_char vs"
    by (simp add: map_eq_append_conv)
  then obtain pre rest where t: "t = pre @ rest"
    and r: "toLowerCase s @ post' = map toLowerCase_char rest"
    by blast
  from r have "\<exists>us vs. rest = us @ vs \<and> toLowerCase s = map toLowerCase_char us
                  \<and> post' = map toLowerCase_char vs"
    by (simp add: append_eq_map_conv)
  then obtain a post where "rest = a @ post" and "map toLowerCase_char a = toLowerCase s"
    by auto
  with t have "t = pre @ a @ post \<and> toLowerCase a = toLowerCase s"
    by (simp add: toLowerCase_def)
  then show "\<exists>pre a post. t = pre @ a @ post \<and> toLowerCase a = toLowerCase s"
    by blast
next
  assume "\<exists>pre a post. t = pre @ a @ post \<and> toLowerCase a = toLowerCase s"
  then obtain pre a post where "t = pre @ a @ post" and "toLowerCase a = toLowerCase s"
    by blast
  then have "toLowerCase t = toLowerCase pre @ toLowerCase s @ toLowerCase post"
    by (simp add: toLowerCase_def)
  then show "contains_ci s t"
    unfolding contains_ci_def contains_iff by blast
qed

lemma like_percent:
  "like (CHR ''%'' # ps) t \<longleftrightarrow> (\<exists>a b. t = a @ b \<and> like ps b)"
proof (induction t)
  case Nil
  show ?case by simp
next
  case (Cons c cs)
  have "like (CHR ''%'' # ps) (c # cs) \<longleftrightarrow> like ps (c # cs) \<or> (\<exists>a b. cs = a @ b \<and> like ps b)"
    using Cons.IH by simp
  also have "\<dots> \<longleftrightarrow> (\<exists>a b. c # cs = a @ b \<and> like ps b)"
  proof
    assume "like ps (c # cs) \<or> (\<exists>a b. cs = a @ b \<and> like ps b)"
    then show "\<exists>a b. c # cs = a @ b \<and> like ps b"
    proof
      assume "like ps (c # cs)"
      then have "c # cs = [] @ (c # cs) \<and> like ps (c # cs)" by simp
      then show ?thesis by blast
    next
      assume "\<exists>a b. cs = a @ b \<and> like ps b"
      then obtain a b where "c # cs = (c # a) @ b \<and> like ps b" by auto
      then show ?thesis by blast
    qed
  next
    assume "\<exists>a b. c # cs = a @ b \<and> like ps b"
    then obtain a b where e: "c # cs = a @ b" and l: "like ps b" by blast
    show "like ps (c # cs) \<or> (\<exists>a b. cs = a @ b \<and> like ps b)"
    proof (cases a)
      case Nil
      with e l show ?thesis by simp
    next
      case (Cons d ds)
      with e have "cs = ds @ b" by simp
      with l show ?thesis by blast
    qed
  qed
  finally show ?case .
qed

lemma like_plain:
  "\<not> list_ex like_special s \<Longrightarrow>
   like (s @ q) t \<longleftrightarrow> (\<exists>a b. t = a @ b \<and> toLowerCase a = toLowerCase s \<and> like q b)"
proof (induction s arbitrary: t)
  case Nil
  show ?case by (simp add: toLowerCase_def)
next
  case (Cons c s)
  from Cons.prems have n: "\<not> like_special c" and s: "\<not> list_ex like_special s"
    by simp_all
  from n have c: "c \<noteq> CHR ''%''" "c \<noteq> CHR ''_''" "c \<noteq> backslash"
    by (simp_all add: like_special_def)
  show ?case
  proof (cases t)
    case Nil
    with c show ?thesis by (simp add: toLowerCase_def)
  next
    case (Cons d ds)
    have "like ((c # s) @ q) (d # ds) \<longleftrightarrow> same_letter d c \<and> like (s @ q) ds"
      using c by simp
    also have "\<dots> \<longleftrightarrow> same_letter d c \<and> (\<exists>a b. ds = a @ b \<and> toLowerCase a = toLowerCase s \<and> like q b)"
      using Cons.IH [OF s] by simp
    also have "\<dots> \<longleftrightarrow> (\<exists>a b. d # ds = a @ b \<and> toLowerCase a = toLowerCase (c # s) \<and> like q b)"
    proof
      assume "same_letter d c \<and> (\<exists>a b. ds = a @ b \<and> toLowerCase a = toLowerCase s \<and> like q b)"
      then obtain a b where "d # ds = (d # a) @ b \<and> toLowerCase (d # a) = toLowerCase (c # s) \<and> like q b"
        by (auto simp add: same_letter_def toLowerCase_def)
      then show "\<exists>a b. d # ds = a @ b \<and> toLowerCase a = toLowerCase (c # s) \<and> like q b"
        by blast
    next
      assume "\<exists>a b. d # ds = a @ b \<and> toLowerCase a = toLowerCase (c # s) \<and> like q b"
      then obtain a b where e: "d # ds = a @ b" and u: "toLowerCase a = toLowerCase (c # s)"
        and l: "like q b" by blast
      from u obtain x xs where a: "a = x # xs"
        by (cases a) (auto simp add: toLowerCase_def)
      with e u l have "same_letter d c \<and> ds = xs @ b \<and> toLowerCase xs = toLowerCase s \<and> like q b"
        by (auto simp add: same_letter_def toLowerCase_def)
      then show "same_letter d c \<and> (\<exists>a b. ds = a @ b \<and> toLowerCase a = toLowerCase s \<and> like q b)"
        by blast
    qed
    finally show ?thesis using Cons by simp
  qed
qed

lemma like_any: "like [CHR ''%''] t"
  by (induction t) auto

lemma like_is_contains:
  assumes "\<not> list_ex like_special s"
  shows "like (''%'' @ s @ ''%'') t \<longleftrightarrow> contains_ci s t"
proof -
  have "like (''%'' @ s @ ''%'') t \<longleftrightarrow> (\<exists>pre b. t = pre @ b \<and> like (s @ ''%'') b)"
    using like_percent [of "s @ ''%''" t] by simp
  also have "\<dots> \<longleftrightarrow> (\<exists>pre b. t = pre @ b \<and>
        (\<exists>a post. b = a @ post \<and> toLowerCase a = toLowerCase s \<and> like ''%'' post))"
    using like_plain [OF assms, of "''%''"] by simp
  also have "\<dots> \<longleftrightarrow> (\<exists>pre a post. t = pre @ a @ post \<and> toLowerCase a = toLowerCase s)"
    using like_any by auto
  also have "\<dots> \<longleftrightarrow> contains_ci s t"
    by (simp add: contains_ci_iff)
  finally show ?thesis .
qed

text \<open>
  Claim C8, as amended. When \<^verbatim>\<open>search\<close> is a non-empty string and there are searchable
  columns, the query gets, after the filter predicates, one \<^verbatim>\<open>AND\<close>-connected
  parenthesised group with one predicate \<^verbatim>\<open>e.<column> LIKE :search_<i>\<close> per searchable
  column, the first plain and the others \<^verbatim>\<open>OR\<close>-connected, each bound to the pattern
  \<^verbatim>\<open>%search%\<close>. With no searchable columns the search adds no clause and no parameter,
  and nothing fails. On the reference engine the pattern \<^verbatim>\<open>%text%\<close> is the
  case-insensitive substring test when \<open>text\<close> has none of the characters \<^verbatim>\<open>%\<close>,
  \<^verbatim>\<open>_\<close> and backslash.
\<close>

theorem C8_search_adds_one_group_of_like_predicates:
  assumes "findAll_query JSON_parse this p = Inr qb"
  shows "\<exists>entries.
     (search p = Some s \<and> s \<noteq> [] \<and> getSearchableColumns this \<noteq> [] \<longrightarrow>
        wheres qb = map filter_clause entries @
          [Brackets W_and
             (map (\<lambda>ic. (if fst ic = 0 then W_simple else W_or,
                          ''e.'' @ snd ic @ '' LIKE :search_'' @ string_of_nat (fst ic)))
                (enumerate 0 (getSearchableColumns this)))] \<and>
        parameters qb = map filter_parameter entries @
          map (\<lambda>ic. (''search_'' @ string_of_nat (fst ic), JString (''%'' @ s @ ''%'')))
            (enumerate 0 (getSearchableColumns this))) \<and>
     (getSearchableColumns this = [] \<longrightarrow>
        wheres qb = map filter_clause entries \<and> parameters qb = map filter_parameter entries) \<and>
     (\<forall>txt t. \<not> list_ex like_special txt \<longrightarrow> like (''%'' @ txt @ ''%'') t = contains_ci txt t)"
proof -
  from assms obtain qb1
    where f: "apply_filters JSON_parse (filters p) (createQueryBuilder ''e'') = Inr qb1"
    by (rule findAll_query_success)
  have "\<exists>entries. wheres qb1 = map filter_clause entries \<and> parameters qb1 = map filter_parameter entries"
  proof (cases "wheres qb1 = [] \<and> parameters qb1 = []")
    case True
    then have "wheres qb1 = map filter_clause [] \<and> parameters qb1 = map filter_parameter []"
      by simp
    then show ?thesis by blast
  next
    case False
    with f show ?thesis
      by (auto simp add: apply_filters_cases createQueryBuilder_def split: option.splits if_splits)
  qed
  then obtain entries where w1: "wheres qb1 = map filter_clause entries"
    and p1: "parameters qb1 = map filter_parameter entries"
    by blast
  from findAll_query_Inr [OF f, of this] assms
  have w: "wheres qb = wheres qb1 @ search_clauses (getSearchableColumns this) (search p)"
    and ps: "parameters qb = parameters qb1 @ search_parameters (getSearchableColumns this) (search p)"
    by auto
  have a: "search p = Some s \<and> s \<noteq> [] \<and> getSearchableColumns this \<noteq> [] \<longrightarrow>
        wheres qb = map filter_clause entries @
          [Brackets W_and
             (map (\<lambda>ic. (if fst ic = 0 then W_simple else W_or,
                          ''e.'' @ snd ic @ '' LIKE :search_'' @ string_of_nat (fst ic)))
                (enumerate 0 (getSearchableColumns this)))] \<and>
        parameters qb = map filter_parameter entries @
          map (\<lambda>ic. (''search_'' @ string_of_nat (fst ic), JString (''%'' @ s @ ''%'')))
            (enumerate 0 (getSearchableColumns this))"
    by (simp add: w ps w1 p1 search_clauses_def search_parameters_def search_condition_def
          search_parameter_def)
  have b: "getSearchableColumns this = [] \<longrightarrow>
        wheres qb = map filter_clause entries \<and> parameters qb = map filter_parameter entries"
    by (simp add: w ps w1 p1 search_clauses_def search_parameters_Nil)
  have c: "\<forall>txt t. \<not> list_ex like_special txt \<longrightarrow> like (''%'' @ txt @ ''%'') t = contains_ci txt t"
    using like_is_contains by blast
  from a b c show ?thesis by blast
qed

theorem C8_search_group_witness:
  "\<exists>qb. findAll_query example_parse (UserRepository mem_repository)
           (default_request\<lparr>search := Some ''bob''\<rparr>) = Inr qb \<and>
        wheres qb = [Brackets W_and [(W_simple, ''e.name LIKE :search_0''),
                                     (W_or, ''e.email LIKE :search_1'')]] \<and>
        parameters qb = [(''search_0'', JString ''%bob%''), (''search_1'', JString ''%bob%'')] \<and>
        like ''%bob%'' ''Bob'' = contains_ci ''bob'' ''Bob''"
proof -
  let ?p = "default_request\<lparr>search := Some ''bob''\<rparr>"
  let ?qb = "\<lparr>main_alias = ''e'',
               wheres = [Brackets W_and [(W_simple, ''e.name LIKE :search_0''),
                                         (W_or, ''e.email LIKE :search_1'')]],
               parameters = [(''search_0'', JString ''%bob%''), (''search_1'', JString ''%bob%'')],
               orderBys = [(''e.id'', ASC)], skip_rows = Some 0, take_rows = Some 10\<rparr>"
  have q: "findAll_query example_parse (UserRepository mem_repository) ?p = Inr ?qb"
    by (simp add: query_eval example_eval text_eval)
  have plain: "\<not> list_ex like_special ''bob''"
    by (simp add: like_special_def text_eval)
  from C8_search_adds_one_group_of_like_predicates [OF q, of "''bob''"] plain
  have "like (''%'' @ ''bob'' @ ''%'') ''Bob'' = contains_ci ''bob'' ''Bob''"
    by blast
  with q show ?thesis by simp
qed

text \<open>
  The claim as stated fails: the search text \<^verbatim>\<open>_\<close> finds a user although neither searchable
  column contains an underscore.
\<close>

theorem C8_underscore_counterexample:
  "findAll example_parse (UserRepository mem_repository)
     (default_request\<lparr>search := Some ''_''\<rparr>) (users [user 1 ''Alice'' ''a@x.com''])
   = Inr \<lparr>data = [user 1 ''Alice'' ''a@x.com''], total = 1, page_out = 1, limit_out = 10\<rparr> \<and>
   \<not> contains_ci ''_'' ''Alice'' \<and> \<not> contains_ci ''_'' ''a@x.com''"
  by (simp add: query_eval engine_eval example_eval text_eval contains_ci_def)

text \<open>
  Claim C10. The parameter bound for every searchable column is the search text between
  two \<^verbatim>\<open>%\<close>, with nothing escaped. So there are a table, a search text with a
  wildcard, and a row that \<^verbatim>\<open>findAll\<close> returns although none of its searchable columns
  has the search text as a literal substring: the user with e-mail \<^verbatim>\<open>bob@x.com\<close> is
  found by the search text \<^verbatim>\<open>b%x\<close>.
\<close>

theorem C10_search_wildcards_are_not_escaped:
  "(\<forall>cols s qb. parameters (apply_search cols (Some s) qb) =
       parameters qb @
         (if s = [] then []
          else map (\<lambda>ic. (''search_'' @ string_of_nat (fst ic), JString (''%'' @ s @ ''%'')))
                 (enumerate 0 cols))) \<and>
   (\<exists>s t r e. (CHR ''%'' \<in> set s \<or> CHR ''_'' \<in> set s) \<and>
       findAll example_parse (UserRepository mem_repository)
         (default_request\<lparr>search := Some s\<rparr>) t = Inr r \<and>
       e \<in> set (data r) \<and>
       \<not> list_ex (column_contains s e) (getSearchableColumns (UserRepository mem_repository)))"
proof (intro conjI allI)
  fix cols s qb
  show "parameters (apply_search cols (Some s) qb) =
       parameters qb @
         (if s = [] then []
          else map (\<lambda>ic. (''search_'' @ string_of_nat (fst ic), JString (''%'' @ s @ ''%'')))
                 (enumerate 0 cols))"
    by (simp add: apply_search_eq search_parameters_def search_parameter_def)
next
  let ?t = "users [user 1 ''Alice'' ''bob@x.com'']"
  let ?e = "user 1 ''Alice'' ''bob@x.com''"
  let ?r = "\<lparr>data = [?e], total = 1, page_out = 1, limit_out = 10\<rparr>"
  have f: "findAll example_parse (UserRepository mem_repository)
             (default_request\<lparr>search := Some ''b%x''\<rparr>) ?t = Inr ?r"
    by (simp add: query_eval engine_eval example_eval text_eval)
  have n: "\<not> list_ex (column_contains ''b%x'' ?e) (getSearchableColumns (UserRepository mem_repository))"
    by (simp add: column_contains_def example_eval)
  have "(CHR ''%'' \<in> set ''b%x'' \<or> CHR ''_'' \<in> set ''b%x'') \<and>
       findAll example_parse (UserRepository mem_repository)
         (default_request\<lparr>search := Some ''b%x''\<rparr>) ?t = Inr ?r \<and>
       ?e \<in> set (data ?r) \<and>
       \<not> list_ex (column_contains ''b%x'' ?e) (getSearchableColumns (UserRepository mem_repository))"
    using f n by simp
  then show "\<exists>s t r e. (CHR ''%'' \<in> set s \<or> CHR ''_'' \<in> set s) \<and>
       findAll example_parse (UserRepository mem_repository)
         (default_request\<lparr>search := Some s\<rparr>) t = Inr r \<and>
       e \<in> set (data r) \<and>
       \<not> list_ex (column_contains s e) (getSearchableColumns (UserRepository mem_repository))"
    by blast
qed

section \<open>Pagination\<close>

lemma length_insert_row: "length (insert_row le x xs) = Suc (length xs)"
  by (induction xs) auto

lemma length_sort_rows: "length (sort_rows le xs) = length xs"
  unfolding sort_rows_def by (induction xs) (auto simp add: length_insert_row)

lemma order_rows_length: "order_rows t obs xs = Inr ys \<Longrightarrow> length ys = length xs"
  by (auto simp add: order_rows_def length_sort_rows split: list.splits option.splits if_splits)

lemma findAll_mem_Inr:
  assumes "repository this = mem_repository" and "1 \<le> page p" and "1 \<le> limit p"
    and "findAll_query JP this p = Inr qb"
    and "matching_rows t qb = Inr found"
    and "order_rows t (orderBys qb) found = Inr ordered"
    and "skip_rows qb = Some ((page p - 1) * limit p)" and "take_rows qb = Some (limit p)"
  shows "findAll JP this p t =
           Inr \<lparr>data = take (nat (limit p)) (drop (nat ((page p - 1) * limit p)) ordered),
                total = int (length found), page_out = page p, limit_out = limit p\<rparr>"
proof -
  have "0 \<le> (page p - 1) * limit p"
    using assms(2,3) by simp
  then have "limit_offset (skip_rows qb) (take_rows qb) ordered =
               Inr (take (nat (limit p)) (drop (nat ((page p - 1) * limit p)) ordered))"
    using assms(3,7,8) by (simp add: limit_offset_def Let_def)
  then have "mem_getManyAndCount qb t =
      Inr (take (nat (limit p)) (drop (nat ((page p - 1) * limit p)) ordered), int (length found))"
    using assms(5,6) by (simp add: mem_getManyAndCount_def)
  then show ?thesis
    using assms(1,4) by (simp add: findAll_def findAll_try_def mem_repository_def)
qed

lemma findAll_mem_success:
  assumes "repository this = mem_repository" and "findAll JP this p t = Inr r"
  obtains qb found ordered where "findAll_query JP this p = Inr qb"
    and "matching_rows t qb = Inr found"
    and "order_rows t (orderBys qb) found = Inr ordered"
proof -
  from assms(2) obtain qb where q: "findAll_query JP this p = Inr qb"
    by (cases "findAll_query JP this p") (auto simp add: findAll_def findAll_try_def)
  with assms obtain dt where g: "mem_getManyAndCount qb t = Inr dt"
    by (cases "mem_getManyAndCount qb t")
       (auto simp add: findAll_def findAll_try_def mem_repository_def)
  then obtain found where m: "matching_rows t qb = Inr found"
    by (cases "matching_rows t qb") (auto simp add: mem_getManyAndCount_def)
  with g obtain ordered where "order_rows t (orderBys qb) found = Inr ordered"
    by (cases "order_rows t (orderBys qb) found") (auto simp add: mem_getManyAndCount_def)
  with q m show ?thesis by (rule that)
qed

lemma findAll_query_page:
  assumes "findAll_query JP this p = Inr qb"
  shows "findAll_query JP this (p\<lparr>page := k\<rparr>) = Inr (qb\<lparr>skip_rows := Some ((k - 1) * limit p)\<rparr>)"
    and "skip_rows qb = Some ((page p - 1) * limit p)" and "take_rows qb = Some (limit p)"
proof -
  from assms obtain qb1
    where f: "apply_filters JP (filters p) (createQueryBuilder ''e'') = Inr qb1"
    by (rule findAll_query_success)
  then have f': "apply_filters JP (filters (p\<lparr>page := k\<rparr>)) (createQueryBuilder ''e'') = Inr qb1"
    by simp
  from findAll_query_Inr [OF f, of this] assms
  have qb: "qb = \<lparr>main_alias = ''e'',
          wheres = wheres qb1 @ search_clauses (getSearchableColumns this) (search p),
          parameters = parameters qb1 @ search_parameters (getSearchableColumns this) (search p),
          orderBys = [(''e.'' @ safeSort (getSortableColumns this) (sortBy p),
                       sort_direction (order p))],
          skip_rows = Some ((page p - 1) * limit p),
          take_rows = Some (limit p)\<rparr>"
    by simp
  show "findAll_query JP this (p\<lparr>page := k\<rparr>) = Inr (qb\<lparr>skip_rows := Some ((k - 1) * limit p)\<rparr>)"
    using findAll_query_Inr [OF f', of this] by (simp add: qb)
  show "skip_rows qb = Some ((page p - 1) * limit p)" by (simp add: qb)
  show "take_rows qb = Some (limit p)" by (simp add: qb)
qed

text \<open>
  Claim C9. On the reference engine, for a request with \<^verbatim>\<open>page\<close> and \<^verbatim>\<open>limit\<close> at least 1
  that \<^verbatim>\<open>findAll\<close> answers: the query skips \<open>(page - 1) * limit\<close> rows and takes \<open>limit\<close>;
  the page returned is that window of the matching rows in sort order, so it has at most
  \<open>limit\<close> rows and at most \<open>total\<close> rows; \<open>total\<close> counts the matching rows; \<^verbatim>\<open>page\<close> and
  \<^verbatim>\<open>limit\<close> come back unchanged. The same request for any other page number from 1 on
  is answered too, with the same \<open>total\<close>, and with no rows once the offset reaches
  \<open>total\<close>.
\<close>

theorem C9_pagination_window:
  assumes "repository this = mem_repository" and "1 \<le> page p" and "1 \<le> limit p"
    and "findAll JSON_parse this p t = Inr r"
  shows "page_out r = page p \<and> limit_out r = limit p \<and>
         length (data r) \<le> nat (limit p) \<and> int (length (data r)) \<le> total r \<and>
         (\<exists>qb found ordered.
            findAll_query JSON_parse this p = Inr qb \<and>
            skip_rows qb = Some ((page p - 1) * limit p) \<and> take_rows qb = Some (limit p) \<and>
            matching_rows t qb = Inr found \<and> order_rows t (orderBys qb) found = Inr ordered \<and>
            length ordered = length found \<and> total r = int (length found) \<and>
            data r = take (nat (limit p)) (drop (nat ((page p - 1) * limit p)) ordered)) \<and>
         (\<forall>k. 1 \<le> k \<longrightarrow>
            (\<exists>r'. findAll JSON_parse this (p\<lparr>page := k\<rparr>) t = Inr r' \<and> total r' = total r \<and>
                  page_out r' = k \<and> limit_out r' = limit p \<and>
                  (total r \<le> (k - 1) * limit p \<longrightarrow> data r' = [])))"
proof -
  from assms(1,4) obtain qb found ordered
    where q: "findAll_query JSON_parse this p = Inr qb"
      and m: "matching_rows t qb = Inr found"
      and ob: "order_rows t (orderBys qb) found = Inr ordered"
    by (rule findAll_mem_success)
  note sk = findAll_query_page(2) [OF q] and tk = findAll_query_page(3) [OF q]
  have len: "length ordered = length found"
    using ob by (rule order_rows_length)
  have r: "r = \<lparr>data = take (nat (limit p)) (drop (nat ((page p - 1) * limit p)) ordered),
                total = int (length found), page_out = page p, limit_out = limit p\<rparr>"
    using findAll_mem_Inr [OF assms(1,2,3) q m ob sk tk] assms(4) by simp
  have bound: "int (length (data r)) \<le> total r"
    using len by (simp add: r)
  have pages: "\<forall>k. 1 \<le> k \<longrightarrow>
            (\<exists>r'. findAll JSON_parse this (p\<lparr>page := k\<rparr>) t = Inr r' \<and> total r' = total r \<and>
                  page_out r' = k \<and> limit_out r' = limit p \<and>
                  (total r \<le> (k - 1) * limit p \<longrightarrow> data r' = []))"
  proof (intro allI impI)
    fix k :: int
    assume k: "1 \<le> k"
    let ?p = "p\<lparr>page := k\<rparr>"
    let ?qb = "qb\<lparr>skip_rows := Some ((k - 1) * limit p)\<rparr>"
    have q': "findAll_query JSON_parse this ?p = Inr ?qb"
      by (rule findAll_query_page(1) [OF q])
    have m': "matching_rows t ?qb = Inr found"
      using m by (simp add: matching_rows_def)
    have ob': "order_rows t (orderBys ?qb) found = Inr ordered"
      using ob by simp
    have "findAll JSON_parse this ?p t =
           Inr \<lparr>data = take (nat (limit ?p)) (drop (nat ((page ?p - 1) * limit ?p)) ordered),
                total = int (length found), page_out = page ?p, limit_out = limit ?p\<rparr>"
      by (rule findAll_mem_Inr [OF assms(1) _ _ q' m' ob']) (use k assms(3) tk in simp_all)
    then show "\<exists>r'. findAll JSON_parse this ?p t = Inr r' \<and> total r' = total r \<and>
                  page_out r' = k \<and> limit_out r' = limit p \<and>
                  (total r \<le> (k - 1) * limit p \<longrightarrow> data r' = [])"
      using len by (simp add: r)
  qed
  from q sk tk m ob len bound pages show ?thesis
    by (simp add: r)
qed

theorem C9_far_page_witness:
  "\<exists>r'. findAll example_parse (UserRepository mem_repository)
            (default_request\<lparr>limit := 1, page := 7\<rparr>) alice_and_bob = Inr r' \<and>
         total r' = 2 \<and> data r' = [] \<and> page_out r' = 7 \<and> limit_out r' = 1"
proof -
  let ?p = "default_request\<lparr>limit := 1\<rparr>"
  let ?r = "\<lparr>data = [user 1 ''Alice'' ''bob@x.com''], total = 2, page_out = 1, limit_out = 1\<rparr>"
  have f: "findAll example_parse (UserRepository mem_repository) ?p alice_and_bob = Inr ?r"
    by (simp add: query_eval engine_eval example_eval text_eval alice_and_bob_def)
  have r: "repository (UserRepository mem_repository) = mem_repository"
    by (simp add: UserRepository_def)
  have pg: "1 \<le> page ?p" and lm: "1 \<le> limit ?p"
    by (simp_all add: default_request_def)
  from C9_pagination_window [OF r pg lm f]
  have "\<forall>k. 1 \<le> k \<longrightarrow>
            (\<exists>r'. findAll example_parse (UserRepository mem_repository) (?p\<lparr>page := k\<rparr>) alice_and_bob
                     = Inr r' \<and> total r' = total ?r \<and>
                  page_out r' = k \<and> limit_out r' = limit ?p \<and>
                  (total ?r \<le> (k - 1) * limit ?p \<longrightarrow> data r' = []))"
    by blast
  then have "1 \<le> (7::int) \<longrightarrow>
            (\<exists>r'. findAll example_parse (UserRepository mem_repository) (?p\<lparr>page := 7\<rparr>) alice_and_bob
                     = Inr r' \<and> total r' = total ?r \<and>
                  page_out r' = 7 \<and> limit_out r' = limit ?p \<and>
                  (total ?r \<le> (7 - 1) * limit ?p \<longrightarrow> data r' = []))"
    by (rule spec)
  then show ?thesis
    by (auto simp add: default_request_def)
qed

text \<open>
  A request with neither filters nor search is always answered by the reference engine,
  whatever \<^verbatim>\<open>sortBy\<close>, \<^verbatim>\<open>order\<close> and the page number are, provided the sortable columns
  and \<^verbatim>\<open>id\<close> are columns of the table.
\<close>

lemma safeSort_member: "safeSort sortable sb \<in> set sortable \<union> {''id''}"
  by (cases sb) (simp_all add: safeSort_def)

lemma starts_with_alias: "starts_with ''e.'' (''e.'' @ c) = Some c"
  using starts_with_append [of "''e.''" c] by simp

lemma findAll_plain_request_answers:
  assumes "repository this = mem_repository" and "filters p = None" and "search p = None"
    and "1 \<le> page p" and "1 \<le> limit p"
    and "set (getSortableColumns this) \<subseteq> set (table_columns t)"
    and "''id'' \<in> set (table_columns t)"
  shows "\<exists>ordered. length ordered = length (rows t) \<and>
           findAll JSON_parse this p t =
             Inr \<lparr>data = take (nat (limit p)) (drop (nat ((page p - 1) * limit p)) ordered),
                  total = int (length (rows t)), page_out = page p, limit_out = limit p\<rparr>"
proof -
  let ?col = "safeSort (getSortableColumns this) (sortBy p)"
  let ?qb = "\<lparr>main_alias = ''e'', wheres = [], parameters = [],
               orderBys = [(''e.'' @ ?col, sort_direction (order p))],
               skip_rows = Some ((page p - 1) * limit p), take_rows = Some (limit p)\<rparr>"
  let ?ordered = "sort_rows (row_le ?col (sort_direction (order p))) (rows t)"
  have "apply_filters JSON_parse (filters p) (createQueryBuilder ''e'') = Inr (createQueryBuilder ''e'')"
    using assms(2) by (simp add: apply_filters_cases)
  from findAll_query_Inr [OF this, of this]
  have q: "findAll_query JSON_parse this p = Inr ?qb"
    using assms(3) by (simp add: createQueryBuilder_def search_clauses_def search_parameters_def)
  have m: "matching_rows t ?qb = Inr (rows t)"
    by (simp add: matching_rows_def group_holds_def)
  have "?col \<in> set (table_columns t)"
    using safeSort_member [of "getSortableColumns this" "sortBy p"] assms(6,7) by auto
  then have ob: "order_rows t (orderBys ?qb) (rows t) = Inr ?ordered"
    using starts_with_alias [of ?col] by (simp add: order_rows_def del: starts_with.simps)
  have "findAll JSON_parse this p t =
             Inr \<lparr>data = take (nat (limit p)) (drop (nat ((page p - 1) * limit p)) ?ordered),
                  total = int (length (rows t)), page_out = page p, limit_out = limit p\<rparr>"
    by (rule findAll_mem_Inr [OF assms(1,4,5) q m ob]) simp_all
  moreover have "length ?ordered = length (rows t)"
    by (rule length_sort_rows)
  ultimately show ?thesis by blast
qed

end
